theory Spec2Isabelle
  imports Main "HOL-Library.Sublist"
begin

section \<open>Issue syncing: mungers/sync/issue-sync.go\<close>

text \<open>
  The syncer keeps a set of already synced ID tokens and talks to two collaborators: an
  \<open>IssueFinder\<close> (the lookup index) and the GitHub client (\<open>github.Config\<close> and the
  \<open>github.MungeObject\<close> handles it returns). Both collaborators live outside the file, so
  the embedding takes them as a record of operations over an abstract world \<open>'w\<close>: every
  operation receives the world and returns the new one next to its result. Go errors are
  values: a collaborator error is its text, \<open>Sync\<close> returns \<open>error + unit\<close>, and
  \<open>panic\<close> is the constructor \<open>Panic\<close>. Calls to \<open>glog\<close> only write to the process log
  and are left out.
\<close>

subsection \<open>Text: \<open>strings.Contains\<close> and \<open>%v\<close>\<close>

fun Contains :: "string \<Rightarrow> string \<Rightarrow> bool" where
  "Contains [] substr = (substr = [])"
| "Contains (x # s) substr = (prefix substr (x # s) \<or> Contains s substr)"

definition digit_char :: "nat \<Rightarrow> char" where
  "digit_char d = ''0123456789'' ! d"

function show_nat :: "nat \<Rightarrow> string" where
  "show_nat n = (if n < 10 then [digit_char n] else show_nat (n div 10) @ [digit_char (n mod 10)])"
  by pat_completeness auto
termination
  by (relation "measure id") auto

declare show_nat.simps [simp del]

text \<open>\<open>%v\<close> of a Go \<open>int\<close>: decimal digits, with a leading minus sign below zero.\<close>

definition show_int :: "int \<Rightarrow> string" where
  "show_int i = (if i < 0 then ''-'' @ show_nat (nat (- i)) else show_nat (nat i))"

definition hex_char :: "nat \<Rightarrow> char" where
  "hex_char d = ''0123456789abcdef'' ! d"

function show_hex :: "nat \<Rightarrow> string" where
  "show_hex n = (if n < 16 then [hex_char n] else show_hex (n div 16) @ [hex_char (n mod 16)])"
  by pat_completeness auto
termination
  by (relation "measure id") auto

declare show_hex.simps [simp del]

text \<open>\<open>%v\<close> of a Go func value: the code address, in hexadecimal after \<open>0x\<close>.\<close>

definition show_func :: "nat \<Rightarrow> string" where
  "show_func addr = ''0x'' @ show_hex addr"

subsection \<open>Data\<close>

text \<open>
  Modelled from the spec: the type \<open>github.Issue\<close> is declared outside the file. The spec
  gives a tracking issue an identifying number, an optional state and an optional body
  text; the code reads exactly these three fields (\<open>Number\<close>, \<open>State\<close>, \<open>Body\<close>).
\<close>

record Issue =
  issue_Number :: int
  issue_State :: "string option"
  issue_Body :: "string option"

text \<open>
  Modelled from the spec: \<open>github.IssueComment\<close>, of which the code reads the optional
  \<open>Body\<close>.
\<close>

record IssueComment =
  comment_Body :: "string option"

text \<open>
  \<open>github.MungeObject\<close> is a handle on one fetched issue; the code reads \<open>obj.Issue\<close> and
  calls \<open>ListComments\<close>, \<open>CloseIssuef\<close> and \<open>WriteComment\<close> on it. The handle is
  the fetched issue itself.
\<close>

type_synonym MungeObject = Issue

text \<open>
  The interface \<open>IssueSource\<close>: its four methods, as the values they return. The field
  \<open>ID_addr\<close> is no method: it is the code address of the method value \<open>source.ID\<close>,
  which is what \<open>%v\<close> prints when the method is named without being called.
\<close>

record IssueSource =
  Title :: string
  ID :: string
  Body :: "bool \<Rightarrow> string"
  Labels :: "string list"
  ID_addr :: nat

datatype error = Err string | Panic string

text \<open>
  The collaborators: the two methods of the interface \<open>IssueFinder\<close>, the two methods of
  \<open>github.Config\<close> that the file calls, and the three methods of \<open>github.MungeObject\<close>
  it calls. \<open>CloseIssuef\<close> receives its message already formatted.
\<close>

record 'w collab =
  AllIssuesForKey :: "string \<Rightarrow> 'w \<Rightarrow> int list \<times> 'w"
  Created :: "string \<Rightarrow> int \<Rightarrow> 'w \<Rightarrow> 'w"
  GetObject :: "int \<Rightarrow> 'w \<Rightarrow> (string + MungeObject) \<times> 'w"
  NewIssue :: "string \<Rightarrow> string \<Rightarrow> string list \<Rightarrow> 'w \<Rightarrow> (string + MungeObject) \<times> 'w"
  ListComments :: "MungeObject \<Rightarrow> 'w \<Rightarrow> (string + IssueComment list) \<times> 'w"
  CloseIssuef :: "MungeObject \<Rightarrow> string \<Rightarrow> 'w \<Rightarrow> string option \<times> 'w"
  WriteComment :: "MungeObject \<Rightarrow> string \<Rightarrow> 'w \<Rightarrow> string option \<times> 'w"

subsection \<open>The functions of the file\<close>

text \<open>
  The texts built by \<open>fmt.Errorf\<close> and by the format of \<open>CloseIssuef\<close>, one definition
  for each call, with the arguments in the order of the call:
  \<^verbatim>\<open>"error getting object for %v: %v"\<close>,
  \<^verbatim>\<open>"error checking whether item %v is recorded in issue %v: %v"\<close>,
  \<^verbatim>\<open>"error getting comments for %v: %v"\<close>,
  \<^verbatim>\<open>"failed to close %v as a dup of %v: %v"\<close>,
  \<^verbatim>\<open>"This is a duplicate of #%v; closing"\<close>,
  \<^verbatim>\<open>"Programmer error: %v does not contain %v!"\<close>,
  \<^verbatim>\<open>"error updating issue %v for %v: %v"\<close> and
  \<^verbatim>\<open>"error making issue for %v: %v"\<close>. The last one is given \<open>source.ID\<close>, the method
  value, where the one before it is given \<open>source.ID()\<close>: it prints a code address.
\<close>

definition errGettingObject :: "int \<Rightarrow> string \<Rightarrow> string" where
  "errGettingObject previousIssue err =
     ''error getting object for '' @ show_int previousIssue @ '': '' @ err"

definition errCheckingRecorded :: "string \<Rightarrow> int \<Rightarrow> string \<Rightarrow> string" where
  "errCheckingRecorded ident previousIssue err =
     ''error checking whether item '' @ ident @ '' is recorded in issue ''
       @ show_int previousIssue @ '': '' @ err"

definition errGettingComments :: "int \<Rightarrow> string \<Rightarrow> string" where
  "errGettingComments number err =
     ''error getting comments for '' @ show_int number @ '': '' @ err"

definition errClosing :: "int \<Rightarrow> int \<Rightarrow> string \<Rightarrow> string" where
  "errClosing number of_number err =
     ''failed to close '' @ show_int number @ '' as a dup of '' @ show_int of_number @ '': '' @ err"

definition dupMessage :: "int \<Rightarrow> string" where
  "dupMessage of_number = ''This is a duplicate of #'' @ show_int of_number @ ''; closing''"

definition programmerError :: "string \<Rightarrow> string \<Rightarrow> string" where
  "programmerError body ident =
     ''Programmer error: '' @ body @ '' does not contain '' @ ident @ ''!''"

definition errUpdating :: "int \<Rightarrow> string \<Rightarrow> string \<Rightarrow> string" where
  "errUpdating number ident err =
     ''error updating issue '' @ show_int number @ '' for '' @ ident @ '': '' @ err"

definition errMaking :: "nat \<Rightarrow> string \<Rightarrow> string" where
  "errMaking id_addr err = ''error making issue for '' @ show_func id_addr @ '': '' @ err"

text \<open>The loop over the comments in \<open>isRecorded\<close>: a comment without body is skipped.\<close>

fun commentsContain :: "IssueComment list \<Rightarrow> string \<Rightarrow> bool" where
  "commentsContain [] ident = False"
| "commentsContain (c # comments) ident =
     (case comment_Body c of
        None \<Rightarrow> commentsContain comments ident
      | Some b \<Rightarrow> if Contains b ident then True else commentsContain comments ident)"

definition bodyContains :: "MungeObject \<Rightarrow> string \<Rightarrow> bool" where
  "bodyContains obj ident =
     (case issue_Body obj of None \<Rightarrow> False | Some b \<Rightarrow> Contains b ident)"

definition isRecorded :: "'w collab \<Rightarrow> MungeObject \<Rightarrow> IssueSource \<Rightarrow> 'w \<Rightarrow> (string + bool) \<times> 'w" where
  "isRecorded c obj source w =
     (if bodyContains obj (ID source) then (Inr True, w)
      else case ListComments c obj w of
        (Inl err, w') \<Rightarrow>
          (Inl (errGettingComments (issue_Number obj) err), w')
      | (Inr comments, w') \<Rightarrow> (Inr (commentsContain comments (ID source)), w'))"

definition isOpen :: "MungeObject \<Rightarrow> bool" where
  "isOpen obj = (case issue_State obj of None \<Rightarrow> False | Some st \<Rightarrow> st = ''open'')"

text \<open>
  The loop of \<open>findPreviousIssues\<close> over the candidate numbers, with the two named results
  \<open>found\<close> and \<open>updatableIssues\<close> as accumulators.
\<close>

fun findLoop :: "'w collab \<Rightarrow> IssueSource \<Rightarrow> int list \<Rightarrow> bool \<Rightarrow> MungeObject list \<Rightarrow> 'w
    \<Rightarrow> (string + bool \<times> MungeObject list) \<times> 'w" where
  "findLoop c source [] found updatableIssues w = (Inr (found, updatableIssues), w)"
| "findLoop c source (previousIssue # rest) found updatableIssues w =
     (case GetObject c previousIssue w of
        (Inl err, w1) \<Rightarrow>
          (Inl (errGettingObject previousIssue err), w1)
      | (Inr obj, w1) \<Rightarrow>
          (case isRecorded c obj source w1 of
             (Inl err, w2) \<Rightarrow>
               (Inl (errCheckingRecorded (ID source) previousIssue err), w2)
           | (Inr recorded, w2) \<Rightarrow>
               findLoop c source rest (if recorded then True else found)
                 (if isOpen obj then updatableIssues @ [obj] else updatableIssues) w2))"

definition findPreviousIssues :: "'w collab \<Rightarrow> IssueSource \<Rightarrow> 'w
    \<Rightarrow> (string + bool \<times> MungeObject list) \<times> 'w" where
  "findPreviousIssues c source w =
     (case AllIssuesForKey c (Title source) w of
        (possibleIssues, w0) \<Rightarrow> findLoop c source possibleIssues False [] w0)"

fun markAsDups :: "'w collab \<Rightarrow> MungeObject list \<Rightarrow> int \<Rightarrow> 'w \<Rightarrow> string option \<times> 'w" where
  "markAsDups c [] of_number w = (None, w)"
| "markAsDups c (dup # dups) of_number w =
     (case CloseIssuef c dup (dupMessage of_number) w of
        (Some err, w') \<Rightarrow>
          (Some (errClosing (issue_Number dup) of_number err), w')
      | (None, w') \<Rightarrow> markAsDups c dups of_number w')"

definition updateIssue :: "'w collab \<Rightarrow> MungeObject \<Rightarrow> IssueSource \<Rightarrow> 'w \<Rightarrow> error option \<times> 'w" where
  "updateIssue c obj source w =
     (let body = Body source False; ident = ID source in
      if \<not> Contains body (ID source) then (Some (Panic (programmerError body ident)), w)
      else case WriteComment c obj body w of
        (Some err, w') \<Rightarrow> (Some (Err err), w')
      | (None, w') \<Rightarrow> (None, w'))"

definition createIssue :: "'w collab \<Rightarrow> IssueSource \<Rightarrow> 'w \<Rightarrow> (error + int) \<times> 'w" where
  "createIssue c source w =
     (let body = Body source True; ident = ID source in
      if \<not> Contains body (ID source) then (Inl (Panic (programmerError body ident)), w)
      else case NewIssue c (Title source) body (Labels source) w of
        (Inl err, w') \<Rightarrow> (Inl (Err err), w')
      | (Inr obj, w') \<Rightarrow> (Inr (issue_Number obj), w'))"

text \<open>
  The step "close dups if there are multiple open issues" of \<open>Sync\<close>:
  \<open>updatableIssues[0]\<close> is kept and \<open>updatableIssues[1:]\<close> is handed to \<open>markAsDups\<close>.
\<close>

definition closeDups :: "'w collab \<Rightarrow> MungeObject list \<Rightarrow> 'w \<Rightarrow> string option \<times> 'w" where
  "closeDups c updatableIssues w =
     (if length updatableIssues > 1
      then markAsDups c (tl updatableIssues) (issue_Number (hd updatableIssues)) w
      else (None, w))"

text \<open>
  \<open>Sync\<close> on the pair of the synced set (the field \<open>s.synced\<close>) and the world. An error
  of \<open>findPreviousIssues\<close> or \<open>markAsDups\<close> is returned as it is, an error of
  \<open>updateIssue\<close> or \<open>createIssue\<close> is wrapped, a panic unwinds through \<open>Sync\<close>.
\<close>

definition Sync :: "'w collab \<Rightarrow> IssueSource \<Rightarrow> string set \<times> 'w \<Rightarrow> (error + unit) \<times> string set \<times> 'w" where
  "Sync c source st =
     (case st of (synced, w) \<Rightarrow>
      if ID source \<in> synced then (Inr (), synced, w)
      else case findPreviousIssues c source w of
        (Inl err, w1) \<Rightarrow> (Inl (Err err), synced, w1)
      | (Inr (found, updatableIssues), w1) \<Rightarrow>
          (case closeDups c updatableIssues w1 of
             (Some err, w2) \<Rightarrow> (Inl (Err err), synced, w2)
           | (None, w2) \<Rightarrow>
               if found then (Inr (), insert (ID source) synced, w2)
               else if length updatableIssues > 0 then
                 (case updateIssue c (hd updatableIssues) source w2 of
                    (Some (Panic p), w3) \<Rightarrow> (Inl (Panic p), synced, w3)
                  | (Some (Err err), w3) \<Rightarrow>
                      (Inl (Err (errUpdating (issue_Number (hd updatableIssues)) (ID source) err)),
                       synced, w3)
                  | (None, w3) \<Rightarrow> (Inr (), insert (ID source) synced, w3))
               else
                 (case createIssue c source w2 of
                    (Inl (Panic p), w3) \<Rightarrow> (Inl (Panic p), synced, w3)
                  | (Inl (Err err), w3) \<Rightarrow>
                      (Inl (Err (errMaking (ID_addr source) err)), synced, w3)
                  | (Inr n, w3) \<Rightarrow>
                      (Inr (), insert (ID source) synced, Created c (Title source) n w3))))"

text \<open>
  The spec's words for "recorded": the issue's body is present and contains the token as
  a literal substring, or some comment has a present body that contains it. This
  definition is written from the spec, to compare \<open>isRecorded\<close> with.
\<close>

definition recorded_in :: "string option \<Rightarrow> string option list \<Rightarrow> string \<Rightarrow> bool" where
  "recorded_in body comment_bodies ident =
     ((case body of None \<Rightarrow> False | Some b \<Rightarrow> sublist ident b) \<or>
      list_ex (\<lambda>cb. case cb of None \<Rightarrow> False | Some b \<Rightarrow> sublist ident b) comment_bodies)"

subsection \<open>Recording the calls\<close>

text \<open>
  One event per collaborator call, with the arguments and the outcome. \<open>logged c\<close> behaves
  as the collaborators \<open>c\<close> do and appends each call to a trace kept beside the world, the
  way a test double counts calls.
\<close>

datatype event =
    EvAllIssuesForKey string "int list"
  | EvCreated string int
  | EvGetObject int "string + MungeObject"
  | EvNewIssue string string "string list" "string + MungeObject"
  | EvListComments MungeObject "string + IssueComment list"
  | EvCloseIssuef MungeObject string "string option"
  | EvWriteComment MungeObject string "string option"

definition logged :: "'w collab \<Rightarrow> ('w \<times> event list) collab" where
  "logged c =
     \<lparr> AllIssuesForKey = (\<lambda>key (w, tr).
         case AllIssuesForKey c key w of (ns, w') \<Rightarrow> (ns, (w', tr @ [EvAllIssuesForKey key ns]))),
       Created = (\<lambda>key n (w, tr). (Created c key n w, tr @ [EvCreated key n])),
       GetObject = (\<lambda>n (w, tr).
         case GetObject c n w of (res, w') \<Rightarrow> (res, (w', tr @ [EvGetObject n res]))),
       NewIssue = (\<lambda>title body labels (w, tr).
         case NewIssue c title body labels w of
           (res, w') \<Rightarrow> (res, (w', tr @ [EvNewIssue title body labels res]))),
       ListComments = (\<lambda>obj (w, tr).
         case ListComments c obj w of (res, w') \<Rightarrow> (res, (w', tr @ [EvListComments obj res]))),
       CloseIssuef = (\<lambda>obj msg (w, tr).
         case CloseIssuef c obj msg w of (res, w') \<Rightarrow> (res, (w', tr @ [EvCloseIssuef obj msg res]))),
       WriteComment = (\<lambda>obj body (w, tr).
         case WriteComment c obj body w of (res, w') \<Rightarrow> (res, (w', tr @ [EvWriteComment obj body res]))) \<rparr>"

text \<open>The error a call ended with, if it failed.\<close>

fun failure :: "event \<Rightarrow> string option" where
  "failure (EvGetObject n (Inl e)) = Some e"
| "failure (EvNewIssue title body labels (Inl e)) = Some e"
| "failure (EvListComments obj (Inl e)) = Some e"
| "failure (EvCloseIssuef obj msg (Some e)) = Some e"
| "failure (EvWriteComment obj body (Some e)) = Some e"
| "failure ev = None"

text \<open>The text a call posts as a comment or as the body of a new issue.\<close>

fun posted :: "event \<Rightarrow> string option" where
  "posted (EvWriteComment obj body res) = Some body"
| "posted (EvNewIssue title body labels res) = Some body"
| "posted ev = None"

text \<open>The issues fetched by the calls of a trace, in the order of the calls.\<close>

fun fetched :: "event list \<Rightarrow> MungeObject list" where
  "fetched [] = []"
| "fetched (EvGetObject n (Inr obj) # evs) = obj # fetched evs"
| "fetched (ev # evs) = fetched evs"

text \<open>A trace without a failed call.\<close>

definition clean :: "event list \<Rightarrow> bool" where
  "clean evs = list_all (\<lambda>ev. failure ev = None) evs"

text \<open>The calls that only read: the lookup, the fetch and the comment listing.\<close>

fun reading :: "event \<Rightarrow> bool" where
  "reading (EvAllIssuesForKey key ns) = True"
| "reading (EvGetObject n res) = True"
| "reading (EvListComments obj res) = True"
| "reading ev = False"

text \<open>
  A call whose answer shows the item's ID token: a fetched issue with the token in its
  body, or a comment list with the token in the body of a comment.
\<close>

fun recording :: "IssueSource \<Rightarrow> event \<Rightarrow> bool" where
  "recording source (EvGetObject n (Inr obj)) = bodyContains obj (ID source)"
| "recording source (EvListComments obj (Inr comments)) = commentsContain comments (ID source)"
| "recording source ev = False"

text \<open>
  What the text \<open>msg\<close> of an error returned by \<open>Sync\<close> says about the failed call \<open>ev\<close>
  that ended with the error \<open>e\<close>: the words naming the operation come first, the error
  of the call comes last, and in between stands the issue number or the item's ID token.
\<close>

fun wrapped :: "IssueSource \<Rightarrow> event \<Rightarrow> string \<Rightarrow> string \<Rightarrow> bool" where
  "wrapped source (EvGetObject n res) e msg =
     (msg = ''error getting object for '' @ show_int n @ '': '' @ e)"
| "wrapped source (EvListComments obj res) e msg =
     (prefix (''error checking whether item '' @ ID source @ '' is recorded in issue '') msg \<and>
      suffix ('': error getting comments for '' @ show_int (issue_Number obj) @ '': '' @ e) msg)"
| "wrapped source (EvCloseIssuef dup text res) e msg =
     (prefix (''failed to close '' @ show_int (issue_Number dup) @ '' as a dup of '') msg \<and>
      suffix ('': '' @ e) msg)"
| "wrapped source (EvWriteComment obj body res) e msg =
     (msg = ''error updating issue '' @ show_int (issue_Number obj) @ '' for '' @ ID source
            @ '': '' @ e)"
| "wrapped source (EvNewIssue title body labels res) e msg =
     (prefix ''error making issue for '' msg \<and> suffix ('': '' @ e) msg)"
| "wrapped source ev e msg = False"

definition failed_with :: "IssueSource \<Rightarrow> string \<Rightarrow> event \<Rightarrow> bool" where
  "failed_with source msg ev =
     (case failure ev of None \<Rightarrow> False | Some e \<Rightarrow> wrapped source ev e msg)"

text \<open>A trace that ends with the failed call behind the error text \<open>msg\<close>, its first failure.\<close>

definition aborted :: "IssueSource \<Rightarrow> string \<Rightarrow> event list \<Rightarrow> bool" where
  "aborted source msg evs =
     (evs \<noteq> [] \<and> clean (butlast evs) \<and> failed_with source msg (last evs))"

text \<open>The calls that close an issue.\<close>

fun closing :: "event \<Rightarrow> bool" where
  "closing (EvCloseIssuef obj msg res) = True"
| "closing ev = False"

text \<open>
  The calls that \<open>Sync\<close> may end with, given the open candidates \<open>upd\<close>: none, one
  comment on the first open candidate, or one new issue, registered when it was created.
\<close>

fun finishing :: "IssueSource \<Rightarrow> MungeObject list \<Rightarrow> event list \<Rightarrow> bool" where
  "finishing source upd [] = True"
| "finishing source upd [EvWriteComment obj body res] =
     (upd \<noteq> [] \<and> obj = hd upd \<and> body = Body source False \<and> Contains body (ID source))"
| "finishing source upd [EvNewIssue title body labels (Inl e)] =
     (upd = [] \<and> title = Title source \<and> body = Body source True \<and> labels = Labels source \<and>
      Contains body (ID source))"
| "finishing source upd [EvNewIssue title body labels (Inr obj), EvCreated key n] =
     (upd = [] \<and> title = Title source \<and> body = Body source True \<and> labels = Labels source \<and>
      Contains body (ID source) \<and> key = Title source \<and> n = issue_Number obj)"
| "finishing source upd evs = False"

text \<open>
  How the result of \<open>Sync\<close> and the failures in its trace go together: an error result
  has its failed call at the end of the trace, any other result has no failed call.
\<close>

definition outcome :: "IssueSource \<Rightarrow> error + unit \<Rightarrow> event list \<Rightarrow> bool" where
  "outcome source r evs =
     (case r of Inl (Err msg) \<Rightarrow> aborted source msg evs | Inl (Panic p) \<Rightarrow> clean evs | Inr u \<Rightarrow> clean evs)"

subsection \<open>A tracker and a lookup index\<close>

text \<open>
  Modelled from the spec: the issue tracker client and the lookup index are outside the
  file. The spec describes them by their operations: the index maps a title to issue
  numbers and registers a created pair; the tracker fetches an issue by number, lists its
  comments, closes it with a message, posts a comment and creates an issue, and each of
  the five can fail with an I/O error. Here the tracker is a table from issue numbers to
  issues with their comments; the \<open>k\<close>-th request fails when \<open>faults k\<close> names an error
  and then changes nothing but the request count. A fetch hands out the issue as it is
  stored under the number asked for.
\<close>

record tracked =
  tr_state :: "string option"
  tr_body :: "string option"
  tr_title :: string
  tr_labels :: "string list"
  tr_comments :: "IssueComment list"

record tracker =
  index :: "string \<Rightarrow> int list"
  issues :: "int \<Rightarrow> tracked option"
  faults :: "nat \<Rightarrow> string option"
  requests :: nat
  next_number :: int

definition request :: "tracker \<Rightarrow> (tracker \<Rightarrow> (string + 'a) \<times> tracker) \<Rightarrow> (string + 'a) \<times> tracker" where
  "request w f =
     (let w' = w\<lparr>requests := requests w + 1\<rparr> in
      case faults w (requests w) of Some e \<Rightarrow> (Inl e, w') | None \<Rightarrow> f w')"

definition on_issue :: "tracker \<Rightarrow> int \<Rightarrow> (tracked \<Rightarrow> (string + 'a) \<times> tracker) \<Rightarrow> (string + 'a) \<times> tracker" where
  "on_issue w n f = (case issues w n of None \<Rightarrow> (Inl ''not found'', w) | Some t \<Rightarrow> f t)"

definition as_error :: "(string + unit) \<times> tracker \<Rightarrow> string option \<times> tracker" where
  "as_error p = (case p of (Inl e, w) \<Rightarrow> (Some e, w) | (Inr u, w) \<Rightarrow> (None, w))"

definition as_issue :: "int \<Rightarrow> tracked \<Rightarrow> Issue" where
  "as_issue n t = \<lparr>issue_Number = n, issue_State = tr_state t, issue_Body = tr_body t\<rparr>"

definition tracker_GetObject :: "int \<Rightarrow> tracker \<Rightarrow> (string + MungeObject) \<times> tracker" where
  "tracker_GetObject n w =
     request w (\<lambda>w'. on_issue w' n (\<lambda>t. (Inr (as_issue n t), w')))"

definition tracker_ListComments :: "MungeObject \<Rightarrow> tracker \<Rightarrow> (string + IssueComment list) \<times> tracker" where
  "tracker_ListComments obj w =
     request w (\<lambda>w'. on_issue w' (issue_Number obj) (\<lambda>t. (Inr (tr_comments t), w')))"

definition tracker_CloseIssuef :: "MungeObject \<Rightarrow> string \<Rightarrow> tracker \<Rightarrow> string option \<times> tracker" where
  "tracker_CloseIssuef obj msg w =
     as_error (request w (\<lambda>w'. on_issue w' (issue_Number obj) (\<lambda>t.
       (Inr (), w'\<lparr>issues := (issues w')(issue_Number obj \<mapsto>
          t\<lparr>tr_state := Some ''closed'',
            tr_comments := tr_comments t @ [\<lparr>comment_Body = Some msg\<rparr>]\<rparr>)\<rparr>))))"

definition tracker_WriteComment :: "MungeObject \<Rightarrow> string \<Rightarrow> tracker \<Rightarrow> string option \<times> tracker" where
  "tracker_WriteComment obj body w =
     as_error (request w (\<lambda>w'. on_issue w' (issue_Number obj) (\<lambda>t.
       (Inr (), w'\<lparr>issues := (issues w')(issue_Number obj \<mapsto>
          t\<lparr>tr_comments := tr_comments t @ [\<lparr>comment_Body = Some body\<rparr>]\<rparr>)\<rparr>))))"

definition tracker_NewIssue :: "string \<Rightarrow> string \<Rightarrow> string list \<Rightarrow> tracker \<Rightarrow> (string + MungeObject) \<times> tracker" where
  "tracker_NewIssue title body labels w =
     request w (\<lambda>w'.
       let n = next_number w';
           new = \<lparr>tr_state = Some ''open'', tr_body = Some body, tr_title = title,
                  tr_labels = labels, tr_comments = []\<rparr>
       in (Inr (as_issue n new),
           w'\<lparr>issues := (issues w')(n \<mapsto> new), next_number := n + 1\<rparr>))"

definition tracker_collab :: "tracker collab" where
  "tracker_collab =
     \<lparr> AllIssuesForKey = (\<lambda>key w. (index w key, w)),
       Created = (\<lambda>key n w. w\<lparr>index := (index w)(key := index w key @ [n])\<rparr>),
       GetObject = tracker_GetObject,
       NewIssue = tracker_NewIssue,
       ListComments = tracker_ListComments,
       CloseIssuef = tracker_CloseIssuef,
       WriteComment = tracker_WriteComment \<rparr>"

text \<open>The numbers of the open issues that the index lists for a title, each once.\<close>

definition open_at :: "tracker \<Rightarrow> int \<Rightarrow> bool" where
  "open_at w n = (case issues w n of None \<Rightarrow> False | Some t \<Rightarrow> isOpen (as_issue n t))"

definition open_issues :: "tracker \<Rightarrow> string \<Rightarrow> int list" where
  "open_issues w key = filter (open_at w) (remdups (index w key))"

subsection \<open>Examples\<close>

text \<open>
  An item whose texts carry its ID token, and trackers to run it against: an empty one,
  and one built from a list of issues that the index lists under the item's title.
\<close>

definition flake :: IssueSource where
  "flake = \<lparr>Title = ''Flake'', ID = ''id-1'',
     Body = (\<lambda>newIssue. if newIssue then ''new id-1'' else ''again id-1''),
     Labels = [''kind/flake''], ID_addr = 4660\<rparr>"

definition an_issue :: "int \<Rightarrow> string \<Rightarrow> string \<Rightarrow> int \<times> tracked" where
  "an_issue n st body =
     (n, \<lparr>tr_state = Some st, tr_body = Some body, tr_title = ''Flake'', tr_labels = [],
          tr_comments = []\<rparr>)"

definition tracker_of :: "(int \<times> tracked) list \<Rightarrow> (nat \<Rightarrow> string option) \<Rightarrow> tracker" where
  "tracker_of ts flt =
     \<lparr>index = (\<lambda>key. if key = ''Flake'' then map fst ts else []),
      issues = map_of ts, faults = flt, requests = 0, next_number = 100\<rparr>"

definition no_faults :: "nat \<Rightarrow> string option" where
  "no_faults k = None"

definition fault_at :: "nat \<Rightarrow> nat \<Rightarrow> string option" where
  "fault_at j k = (if k = j then Some ''timeout'' else None)"

text \<open>The three open issues 5, 7 and 3 of the spec's example, none of them with the token.\<close>

definition three_open :: "(int \<times> tracked) list" where
  "three_open = [an_issue 5 ''open'' ''a'', an_issue 7 ''open'' ''b'', an_issue 3 ''open'' ''c'']"

text \<open>An item whose text lacks its ID token, against the contract of the interface.\<close>

definition tokenless :: IssueSource where
  "tokenless = \<lparr>Title = ''Flake'', ID = ''id-2'', Body = (\<lambda>newIssue. ''flaky''),
     Labels = [], ID_addr = 4660\<rparr>"

text \<open>A closed issue with the token in its body; a closed one with the token in a comment.\<close>

definition closed_recorded :: "(int \<times> tracked) list" where
  "closed_recorded = [an_issue 4 ''closed'' ''seen id-1'']"

definition commented :: "int \<times> tracked" where
  "commented =
     (9, \<lparr>tr_state = Some ''closed'', tr_body = None,
      tr_title = ''Flake'', tr_labels = [],
      tr_comments = [\<lparr>comment_Body = None\<rparr>, \<lparr>comment_Body = Some ''seen id-1''\<rparr>]\<rparr>)"

text \<open>Runs from an empty synced set and an empty trace, and their parts.\<close>

abbreviation issue_of :: "int \<Rightarrow> string \<Rightarrow> string \<Rightarrow> Issue" where
  "issue_of n st body \<equiv> \<lparr>issue_Number = n, issue_State = Some st, issue_Body = Some body\<rparr>"

abbreviation run :: "IssueSource \<Rightarrow> (int \<times> tracked) list \<Rightarrow> (nat \<Rightarrow> string option)
    \<Rightarrow> (error + unit) \<times> string set \<times> tracker \<times> event list" where
  "run source ts flt \<equiv> Sync (logged tracker_collab) source ({}, (tracker_of ts flt, []))"

abbreviation discover :: "IssueSource \<Rightarrow> (int \<times> tracked) list \<Rightarrow> (nat \<Rightarrow> string option)
    \<Rightarrow> (string + bool \<times> MungeObject list) \<times> tracker \<times> event list" where
  "discover source ts flt \<equiv> findPreviousIssues (logged tracker_collab) source (tracker_of ts flt, [])"

abbreviation three_issues :: "MungeObject list" where
  "three_issues \<equiv> [issue_of 5 ''open'' ''a'', issue_of 7 ''open'' ''b'', issue_of 3 ''open'' ''c'']"

abbreviation dedup :: "MungeObject list \<Rightarrow> 'a \<times> tracker \<times> event list
    \<Rightarrow> string option \<times> tracker \<times> event list" where
  "dedup upd F \<equiv> closeDups (logged tracker_collab) upd (fst (snd F), snd (snd F))"

abbreviation trace_of :: "'a \<times> 'b \<times> 'c \<times> event list \<Rightarrow> event list" where
  "trace_of R \<equiv> snd (snd (snd R))"

abbreviation world_of :: "'a \<times> 'b \<times> tracker \<times> event list \<Rightarrow> tracker" where
  "world_of R \<equiv> fst (snd (snd R))"

section \<open>Properties\<close>

subsection \<open>Traces\<close>

lemma Contains_iff_sublist: "Contains s substr \<longleftrightarrow> sublist substr s"
  by (induction s) (auto simp: sublist_Cons_right)

lemma wrapped_fetch: "wrapped source (EvGetObject n res) e (errGettingObject n e)"
  by (simp add: errGettingObject_def)

lemma wrapped_update:
  "wrapped source (EvWriteComment obj body res) e (errUpdating (issue_Number obj) (ID source) e)"
  by (simp add: errUpdating_def)

lemma wrapped_list:
  "wrapped source (EvListComments obj res) e
     (errCheckingRecorded (ID source) n (errGettingComments (issue_Number obj) e))"
proof -
  have "errCheckingRecorded (ID source) n (errGettingComments (issue_Number obj) e) =
      (''error checking whether item '' @ ID source @ '' is recorded in issue '' @ show_int n)
      @ ('': error getting comments for '' @ show_int (issue_Number obj) @ '': '' @ e)"
    by (simp add: errCheckingRecorded_def errGettingComments_def)
  then have "suffix ('': error getting comments for '' @ show_int (issue_Number obj) @ '': '' @ e)
      (errCheckingRecorded (ID source) n (errGettingComments (issue_Number obj) e))"
    by (rule suffixI)
  moreover have "prefix (''error checking whether item '' @ ID source @ '' is recorded in issue '')
      (errCheckingRecorded (ID source) n (errGettingComments (issue_Number obj) e))"
    by (simp add: errCheckingRecorded_def)
  ultimately show ?thesis by simp
qed

lemma wrapped_close:
  "wrapped source (EvCloseIssuef dup text res) e (errClosing (issue_Number dup) k e)"
proof -
  have "errClosing (issue_Number dup) k e =
      (''failed to close '' @ show_int (issue_Number dup) @ '' as a dup of '' @ show_int k) @ ('': '' @ e)"
    by (simp add: errClosing_def)
  then have "suffix ('': '' @ e) (errClosing (issue_Number dup) k e)"
    by (rule suffixI)
  moreover have "prefix (''failed to close '' @ show_int (issue_Number dup) @ '' as a dup of '')
      (errClosing (issue_Number dup) k e)"
    by (simp add: errClosing_def)
  ultimately show ?thesis by simp
qed

lemma wrapped_create:
  "wrapped source (EvNewIssue title body labels res) e (errMaking a e)"
proof -
  have "errMaking a e = (''error making issue for '' @ show_func a) @ ('': '' @ e)"
    by (simp add: errMaking_def)
  then have "suffix ('': '' @ e) (errMaking a e)"
    by (rule suffixI)
  moreover have "prefix ''error making issue for '' (errMaking a e)"
    by (simp add: errMaking_def)
  ultimately show ?thesis by simp
qed

lemma clean_simps [simp]:
  "clean []" "clean (ev # evs) = (failure ev = None \<and> clean evs)"
  "clean (evs @ evs') = (clean evs \<and> clean evs')"
  by (auto simp: clean_def)

lemma aborted_single [simp]: "aborted source msg [ev] = failed_with source msg ev"
  by (simp add: aborted_def)

lemma aborted_Cons [simp]:
  "failure ev = None \<Longrightarrow> aborted source msg (ev # evs) = aborted source msg evs"
  by (cases evs) (auto simp: aborted_def failed_with_def)

lemma logged_simps [simp]:
  "AllIssuesForKey (logged c) key (w, tr) =
     (case AllIssuesForKey c key w of (ns, w') \<Rightarrow> (ns, (w', tr @ [EvAllIssuesForKey key ns])))"
  "Created (logged c) key n (w, tr) = (Created c key n w, tr @ [EvCreated key n])"
  "GetObject (logged c) n (w, tr) =
     (case GetObject c n w of (res, w') \<Rightarrow> (res, (w', tr @ [EvGetObject n res])))"
  "NewIssue (logged c) title body labels (w, tr) =
     (case NewIssue c title body labels w of
        (res, w') \<Rightarrow> (res, (w', tr @ [EvNewIssue title body labels res])))"
  "ListComments (logged c) obj (w, tr) =
     (case ListComments c obj w of (res, w') \<Rightarrow> (res, (w', tr @ [EvListComments obj res])))"
  "CloseIssuef (logged c) obj msg (w, tr) =
     (case CloseIssuef c obj msg w of (res, w') \<Rightarrow> (res, (w', tr @ [EvCloseIssuef obj msg res])))"
  "WriteComment (logged c) obj body (w, tr) =
     (case WriteComment c obj body w of (res, w') \<Rightarrow> (res, (w', tr @ [EvWriteComment obj body res])))"
  by (simp_all add: logged_def)

lemma isRecorded_logged:
  "isRecorded (logged c) obj source (w, tr) =
     (if bodyContains obj (ID source) then (Inr True, (w, tr))
      else case ListComments c obj w of
        (Inl err, w') \<Rightarrow>
          (Inl (errGettingComments (issue_Number obj) err), (w', tr @ [EvListComments obj (Inl err)]))
      | (Inr comments, w') \<Rightarrow>
          (Inr (commentsContain comments (ID source)), (w', tr @ [EvListComments obj (Inr comments)])))"
  by (simp add: isRecorded_def split: prod.splits sum.splits)

lemma findLoop_trace:
  "findLoop (logged c) source ns found upd (w, tr) = (r, (w', tr')) \<Longrightarrow>
     \<exists>evs. tr' = tr @ evs \<and> list_all reading evs \<and>
       (case r of
          Inl msg \<Rightarrow> aborted source msg evs
        | Inr (found', upd') \<Rightarrow>
            clean evs \<and> upd' = upd @ filter isOpen (fetched evs) \<and>
            (found' \<longleftrightarrow> found \<or> list_ex (recording source) evs))"
proof (induction ns arbitrary: found upd w tr)
  case Nil
  then show ?case by auto
next
  case (Cons n ns)
  show ?case
  proof (cases "GetObject c n w")
    case (Pair res w1)
    show ?thesis
    proof (cases res)
      case (Inl err)
      with Pair Cons.prems show ?thesis
        by (auto simp: failed_with_def wrapped_fetch simp del: wrapped.simps)
    next
      case (Inr obj)
      show ?thesis
      proof (cases "bodyContains obj (ID source)")
        case True
        with Pair Inr Cons.prems
        have "findLoop (logged c) source ns True (if isOpen obj then upd @ [obj] else upd)
                (w1, tr @ [EvGetObject n (Inr obj)]) = (r, (w', tr'))"
          by (simp add: isRecorded_logged)
        from Cons.IH [OF this] obtain evs where
          "tr' = (tr @ [EvGetObject n (Inr obj)]) @ evs" "list_all reading evs"
          "case r of Inl msg \<Rightarrow> aborted source msg evs
           | Inr (found', upd') \<Rightarrow> clean evs \<and>
               upd' = (if isOpen obj then upd @ [obj] else upd) @ filter isOpen (fetched evs) \<and>
               (found' \<longleftrightarrow> True \<or> list_ex (recording source) evs)"
          by blast
        with True show ?thesis
          by (intro exI [of _ "EvGetObject n (Inr obj) # evs"])
             (auto split: sum.splits if_splits)
      next
        case False
        show ?thesis
        proof (cases "ListComments c obj w1")
          case lc: (Pair res2 w2)
          show ?thesis
          proof (cases res2)
            case (Inl err)
            with Pair Inr False lc Cons.prems show ?thesis
              by (auto simp: isRecorded_logged failed_with_def aborted_def wrapped_list simp del: wrapped.simps)
          next
            case cs: (Inr comments)
            with Pair Inr False lc Cons.prems
            have "findLoop (logged c) source ns (if commentsContain comments (ID source) then True else found)
                    (if isOpen obj then upd @ [obj] else upd)
                    (w2, tr @ [EvGetObject n (Inr obj), EvListComments obj (Inr comments)]) = (r, (w', tr'))"
              by (simp add: isRecorded_logged)
            from Cons.IH [OF this] obtain evs where
              "tr' = (tr @ [EvGetObject n (Inr obj), EvListComments obj (Inr comments)]) @ evs"
              "list_all reading evs"
              "case r of Inl msg \<Rightarrow> aborted source msg evs
               | Inr (found', upd') \<Rightarrow> clean evs \<and>
                   upd' = (if isOpen obj then upd @ [obj] else upd) @ filter isOpen (fetched evs) \<and>
                   (found' \<longleftrightarrow> (if commentsContain comments (ID source) then True else found)
                      \<or> list_ex (recording source) evs)"
              by blast
            with False show ?thesis
              by (intro exI [of _ "EvGetObject n (Inr obj) # EvListComments obj (Inr comments) # evs"])
                 (auto split: sum.splits if_splits)
          qed
        qed
      qed
    qed
  qed
qed

lemma findPreviousIssues_trace:
  assumes "findPreviousIssues (logged c) source (w, tr) = (r, (w', tr'))"
  shows "\<exists>evs. tr' = tr @ evs \<and> list_all reading evs \<and>
       (case r of
          Inl msg \<Rightarrow> aborted source msg evs
        | Inr (found, upd) \<Rightarrow>
            clean evs \<and> upd = filter isOpen (fetched evs) \<and>
            (found \<longleftrightarrow> list_ex (recording source) evs))"
proof (cases "AllIssuesForKey c (Title source) w")
  case (Pair ns w0)
  let ?ev = "EvAllIssuesForKey (Title source) ns"
  from assms Pair
  have "findLoop (logged c) source ns False [] (w0, tr @ [?ev]) = (r, (w', tr'))"
    by (simp add: findPreviousIssues_def)
  from findLoop_trace [OF this] obtain evs where
    "tr' = (tr @ [?ev]) @ evs" "list_all reading evs"
    "case r of Inl msg \<Rightarrow> aborted source msg evs
     | Inr (found, upd) \<Rightarrow> clean evs \<and> upd = [] @ filter isOpen (fetched evs) \<and>
         (found \<longleftrightarrow> False \<or> list_ex (recording source) evs)"
    by blast
  then show ?thesis
    by (intro exI [of _ "?ev # evs"]) (auto split: sum.splits)
qed

lemma markAsDups_trace:
  "markAsDups (logged c) dups k (w, tr) = (r, (w', tr')) \<Longrightarrow>
     \<exists>n. n \<le> length dups \<and>
       (case r of
          None \<Rightarrow> n = length dups \<and>
            tr' = tr @ map (\<lambda>d. EvCloseIssuef d (dupMessage k) None) dups
        | Some msg \<Rightarrow> n < length dups \<and>
            (\<exists>e. tr' = tr @ map (\<lambda>d. EvCloseIssuef d (dupMessage k) None) (take n dups)
                      @ [EvCloseIssuef (dups ! n) (dupMessage k) (Some e)] \<and>
                 msg = errClosing (issue_Number (dups ! n)) k e))"
proof (induction dups arbitrary: w tr)
  case Nil
  then show ?case by auto
next
  case (Cons d dups)
  show ?case
  proof (cases "CloseIssuef c d (dupMessage k) w")
    case (Pair res w1)
    show ?thesis
    proof (cases res)
      case None
      with Pair Cons.prems
      have "markAsDups (logged c) dups k (w1, tr @ [EvCloseIssuef d (dupMessage k) None]) = (r, (w', tr'))"
        by simp
      from Cons.IH [OF this] obtain n where n: "n \<le> length dups"
        "case r of
          None \<Rightarrow> n = length dups \<and>
            tr' = (tr @ [EvCloseIssuef d (dupMessage k) None]) @ map (\<lambda>d. EvCloseIssuef d (dupMessage k) None) dups
        | Some msg \<Rightarrow> n < length dups \<and>
            (\<exists>e. tr' = (tr @ [EvCloseIssuef d (dupMessage k) None]) @ map (\<lambda>d. EvCloseIssuef d (dupMessage k) None) (take n dups)
                      @ [EvCloseIssuef (dups ! n) (dupMessage k) (Some e)] \<and>
                 msg = errClosing (issue_Number (dups ! n)) k e)"
        by blast
      then show ?thesis
        by (intro exI [of _ "Suc n"]) (auto split: option.splits)
    next
      case (Some e)
      with Pair Cons.prems show ?thesis
        by (intro exI [of _ 0]) auto
    qed
  qed
qed


lemma aborted_append: "clean evs \<Longrightarrow> aborted source msg (evs @ evs') = aborted source msg evs'"
  by (induction evs) auto

lemma clean_closed_ok [simp]: "clean (map (\<lambda>d. EvCloseIssuef d text None) ds)"
  by (induction ds) auto

lemma closing_closed [simp]: "list_all closing (map (\<lambda>d. EvCloseIssuef d text res) ds)"
  by (induction ds) auto

lemma closeDups_trace:
  assumes "closeDups (logged c) upd (w, tr) = (r, (w', tr'))"
  shows "\<exists>evs. tr' = tr @ evs \<and> list_all closing evs \<and>
       (case r of None \<Rightarrow> clean evs | Some msg \<Rightarrow> aborted source msg evs)"
proof (cases "1 < length upd")
  case False
  with assms show ?thesis by (auto simp: closeDups_def)
next
  case True
  let ?k = "issue_Number (hd upd)"
  from True assms have "markAsDups (logged c) (tl upd) ?k (w, tr) = (r, (w', tr'))"
    by (simp add: closeDups_def)
  from markAsDups_trace [OF this] obtain n where n: "n \<le> length (tl upd)"
    "case r of
          None \<Rightarrow> n = length (tl upd) \<and>
            tr' = tr @ map (\<lambda>d. EvCloseIssuef d (dupMessage ?k) None) (tl upd)
        | Some msg \<Rightarrow> n < length (tl upd) \<and>
            (\<exists>e. tr' = tr @ map (\<lambda>d. EvCloseIssuef d (dupMessage ?k) None) (take n (tl upd))
                      @ [EvCloseIssuef (tl upd ! n) (dupMessage ?k) (Some e)] \<and>
                 msg = errClosing (issue_Number (tl upd ! n)) ?k e)"
    by blast
  show ?thesis
  proof (cases r)
    case None
    with n show ?thesis by auto
  next
    case (Some msg)
    with n obtain e where e:
      "tr' = tr @ map (\<lambda>d. EvCloseIssuef d (dupMessage ?k) None) (take n (tl upd))
                      @ [EvCloseIssuef (tl upd ! n) (dupMessage ?k) (Some e)]"
      "msg = errClosing (issue_Number (tl upd ! n)) ?k e"
      by auto
    have "aborted source msg (map (\<lambda>d. EvCloseIssuef d (dupMessage ?k) None) (take n (tl upd))
                      @ [EvCloseIssuef (tl upd ! n) (dupMessage ?k) (Some e)])"
      using e(2) by (simp add: aborted_append failed_with_def wrapped_close del: wrapped.simps)
    with e(1) Some show ?thesis
      by (intro exI [of _ "map (\<lambda>d. EvCloseIssuef d (dupMessage ?k) None) (take n (tl upd))
                      @ [EvCloseIssuef (tl upd ! n) (dupMessage ?k) (Some e)]"]) simp
  qed
qed

lemma updateIssue_logged:
  "updateIssue (logged c) obj source (w, tr) =
     (if \<not> Contains (Body source False) (ID source)
      then (Some (Panic (programmerError (Body source False) (ID source))), (w, tr))
      else case WriteComment c obj (Body source False) w of
        (res, w') \<Rightarrow> (map_option Err res, (w', tr @ [EvWriteComment obj (Body source False) res])))"
  by (simp add: updateIssue_def Let_def split: prod.splits option.splits)

lemma createIssue_logged:
  "createIssue (logged c) source (w, tr) =
     (if \<not> Contains (Body source True) (ID source)
      then (Inl (Panic (programmerError (Body source True) (ID source))), (w, tr))
      else case NewIssue c (Title source) (Body source True) (Labels source) w of
        (res, w') \<Rightarrow>
          (case res of Inl err \<Rightarrow> Inl (Err err) | Inr obj \<Rightarrow> Inr (issue_Number obj),
           (w', tr @ [EvNewIssue (Title source) (Body source True) (Labels source) res])))"
  by (simp add: createIssue_def Let_def split: prod.splits sum.splits)

text \<open>The six ways through \<open>Sync\<close>.\<close>

lemma Sync_cases:
  assumes "Sync c source (synced, w) = (r, synced', w')"
  obtains
    (already) "ID source \<in> synced" "r = Inr ()" "synced' = synced" "w' = w"
  | (find_failed) msg where "ID source \<notin> synced"
      "findPreviousIssues c source w = (Inl msg, w')" "r = Inl (Err msg)" "synced' = synced"
  | (close_failed) found upd w1 msg where "ID source \<notin> synced"
      "findPreviousIssues c source w = (Inr (found, upd), w1)"
      "closeDups c upd w1 = (Some msg, w')" "r = Inl (Err msg)" "synced' = synced"
  | (recorded) upd w1 where "ID source \<notin> synced"
      "findPreviousIssues c source w = (Inr (True, upd), w1)"
      "closeDups c upd w1 = (None, w')" "r = Inr ()" "synced' = insert (ID source) synced"
  | (update) upd w1 w2 res where "ID source \<notin> synced"
      "findPreviousIssues c source w = (Inr (False, upd), w1)" "upd \<noteq> []"
      "closeDups c upd w1 = (None, w2)"
      "updateIssue c (hd upd) source w2 = (res, w')"
      "r = (case res of None \<Rightarrow> Inr () | Some (Panic p) \<Rightarrow> Inl (Panic p)
            | Some (Err e) \<Rightarrow> Inl (Err (errUpdating (issue_Number (hd upd)) (ID source) e)))"
      "synced' = (if res = None then insert (ID source) synced else synced)"
  | (create) w1 w2 w3 res where "ID source \<notin> synced"
      "findPreviousIssues c source w = (Inr (False, []), w1)"
      "closeDups c [] w1 = (None, w2)"
      "createIssue c source w2 = (res, w3)"
      "r = (case res of Inr n \<Rightarrow> Inr () | Inl (Panic p) \<Rightarrow> Inl (Panic p)
            | Inl (Err e) \<Rightarrow> Inl (Err (errMaking (ID_addr source) e)))"
      "synced' = (case res of Inr n \<Rightarrow> insert (ID source) synced | Inl e \<Rightarrow> synced)"
      "w' = (case res of Inr n \<Rightarrow> Created c (Title source) n w3 | Inl e \<Rightarrow> w3)"
  using assms
  by (auto simp: Sync_def split: if_splits prod.splits sum.splits option.splits error.splits)


lemma Sync_run:
  assumes "Sync (logged c) source (synced, (w, tr)) = (r, synced', (w', tr'))"
  shows "\<exists>evs1 evs2 evs3. tr' = tr @ evs1 @ evs2 @ evs3 \<and>
      list_all reading evs1 \<and> list_all closing evs2 \<and>
      finishing source (filter isOpen (fetched evs1)) evs3 \<and>
      outcome source r (evs1 @ evs2 @ evs3) \<and>
      (list_ex (recording source) evs1 \<longrightarrow> evs3 = [] \<and> (\<forall>p. r \<noteq> Inl (Panic p)))"
  using assms
proof (cases rule: Sync_cases)
  case already
  then show ?thesis
    by (intro exI [of _ "[]"]) (simp add: outcome_def)
next
  case (find_failed msg)
  from findPreviousIssues_trace [OF find_failed(2)] obtain evs where
    "tr' = tr @ evs" "list_all reading evs" "aborted source msg evs"
    by auto
  with find_failed show ?thesis
    by (intro exI [of _ evs] exI [of _ "[]"]) (simp add: outcome_def)
next
  case (close_failed found upd W1 msg)
  obtain w1 tr1 where W1: "W1 = (w1, tr1)" by (cases W1)
  from findPreviousIssues_trace [OF close_failed(2) [unfolded W1]] obtain evs1 where
    evs1: "tr1 = tr @ evs1" "list_all reading evs1" "clean evs1"
      "upd = filter isOpen (fetched evs1)" "found \<longleftrightarrow> list_ex (recording source) evs1"
    by auto
  from closeDups_trace [OF close_failed(3) [unfolded W1], of source] obtain evs2 where
    evs2: "tr' = tr1 @ evs2" "list_all closing evs2" "aborted source msg evs2"
    by auto
  from evs1 evs2 close_failed show ?thesis
    by (intro exI [of _ evs1] exI [of _ evs2] exI [of _ "[]"])
       (simp add: outcome_def aborted_append)
next
  case (recorded upd W1)
  obtain w1 tr1 where W1: "W1 = (w1, tr1)" by (cases W1)
  from findPreviousIssues_trace [OF recorded(2) [unfolded W1]] obtain evs1 where
    evs1: "tr1 = tr @ evs1" "list_all reading evs1" "clean evs1"
      "upd = filter isOpen (fetched evs1)" "list_ex (recording source) evs1"
    by auto
  from closeDups_trace [OF recorded(3) [unfolded W1], of source] obtain evs2 where
    evs2: "tr' = tr1 @ evs2" "list_all closing evs2" "clean evs2"
    by auto
  from evs1 evs2 recorded show ?thesis
    by (intro exI [of _ evs1] exI [of _ evs2] exI [of _ "[]"])
       (simp add: outcome_def)
next
  case (update upd W1 W2 res)
  obtain w1 tr1 where W1: "W1 = (w1, tr1)" by (cases W1)
  obtain w2 tr2 where W2: "W2 = (w2, tr2)" by (cases W2)
  from findPreviousIssues_trace [OF update(2) [unfolded W1]] obtain evs1 where
    evs1: "tr1 = tr @ evs1" "list_all reading evs1" "clean evs1"
      "upd = filter isOpen (fetched evs1)" "\<not> list_ex (recording source) evs1"
    by auto
  from closeDups_trace [OF update(4) [unfolded W1 W2], of source] obtain evs2 where
    evs2: "tr2 = tr1 @ evs2" "list_all closing evs2" "clean evs2"
    by auto
  show ?thesis
  proof (cases "Contains (Body source False) (ID source)")
    case False
    with update(5) [unfolded W2] have "tr' = tr2" "res = Some (Panic (programmerError (Body source False) (ID source)))"
      by (auto simp: updateIssue_logged)
    with evs1 evs2 update(6) show ?thesis
      by (intro exI [of _ evs1] exI [of _ evs2] exI [of _ "[]"])
         (simp add: outcome_def)
  next
    case True
    obtain res0 w3 where wc: "WriteComment c (hd upd) (Body source False) w2 = (res0, w3)"
      by (cases "WriteComment c (hd upd) (Body source False) w2")
    let ?ev = "EvWriteComment (hd upd) (Body source False) res0"
    from True wc update(5) [unfolded W2] have tr': "tr' = tr2 @ [?ev]" and res: "res = map_option Err res0"
      by (auto simp: updateIssue_logged)
    have "outcome source r (evs1 @ evs2 @ [?ev])"
      using evs1(3) evs2(3) update(6) res
      by (cases res0)
         (simp_all add: outcome_def aborted_append failed_with_def wrapped_update del: wrapped.simps)
    with evs1 evs2 tr' True update(3) show ?thesis
      by (intro exI [of _ evs1] exI [of _ evs2] exI [of _ "[?ev]"]) simp
  qed
next
  case (create W1 W2 W3 res)
  obtain w1 tr1 where W1: "W1 = (w1, tr1)" by (cases W1)
  obtain w2 tr2 where W2: "W2 = (w2, tr2)" by (cases W2)
  obtain w3 tr3 where W3: "W3 = (w3, tr3)" by (cases W3)
  from findPreviousIssues_trace [OF create(2) [unfolded W1]] obtain evs1 where
    evs1: "tr1 = tr @ evs1" "list_all reading evs1" "clean evs1"
      "[] = filter isOpen (fetched evs1)" "\<not> list_ex (recording source) evs1"
    by auto
  from create(3) [unfolded W1 W2] have tr2: "tr2 = tr1"
    by (simp add: closeDups_def)
  show ?thesis
  proof (cases "Contains (Body source True) (ID source)")
    case False
    with create(4) [unfolded W2 W3] have "tr3 = tr2" "res = Inl (Panic (programmerError (Body source True) (ID source)))"
      by (auto simp: createIssue_logged)
    with evs1 tr2 create(5,7) W3 show ?thesis
      by (intro exI [of _ evs1] exI [of _ "[]"])
         (simp add: outcome_def)
  next
    case True
    obtain res0 w4 where ni: "NewIssue c (Title source) (Body source True) (Labels source) w2 = (res0, w4)"
      by (cases "NewIssue c (Title source) (Body source True) (Labels source) w2")
    let ?ev = "EvNewIssue (Title source) (Body source True) (Labels source) res0"
    from True ni create(4) [unfolded W2 W3] have tr3: "tr3 = tr2 @ [?ev]"
      and res: "res = (case res0 of Inl err \<Rightarrow> Inl (Err err) | Inr obj \<Rightarrow> Inr (issue_Number obj))"
      by (auto simp: createIssue_logged)
    show ?thesis
    proof (cases res0)
      case (Inl e)
      with res create(5,7) W3 tr3 have "r = Inl (Err (errMaking (ID_addr source) e))" "tr' = tr2 @ [?ev]"
        by simp_all
      moreover have "outcome source (Inl (Err (errMaking (ID_addr source) e))) (evs1 @ [?ev])"
        using evs1(3) Inl
        by (simp add: outcome_def aborted_append failed_with_def wrapped_create del: wrapped.simps)
      ultimately show ?thesis using evs1 tr2 True Inl
        by (intro exI [of _ evs1] exI [of _ "[]"] exI [of _ "[?ev]"]) simp
    next
      case (Inr obj)
      let ?ev2 = "EvCreated (Title source) (issue_Number obj)"
      from Inr res create(5,7) W3 tr3 have "r = Inr ()" "tr' = tr2 @ [?ev, ?ev2]"
        by simp_all
      moreover have "outcome source (Inr ()) (evs1 @ [?ev, ?ev2])"
        using evs1(3) Inr by (simp add: outcome_def)
      ultimately show ?thesis using evs1 tr2 True Inr
        by (intro exI [of _ evs1] exI [of _ "[]"] exI [of _ "[?ev, ?ev2]"]) simp
    qed
  qed
qed

lemma Sync_success: 
  "Sync c source (synced, w) = (Inr u, synced', w') \<Longrightarrow> synced' = insert (ID source) synced"
  by (erule Sync_cases) (auto split: option.splits sum.splits error.splits)

lemma Sync_failure: 
  "Sync c source (synced, w) = (Inl e, synced', w') \<Longrightarrow> synced' = synced"
  by (erule Sync_cases) (auto split: option.splits sum.splits error.splits)

lemma commentsContain_iff:
  "commentsContain comments ident \<longleftrightarrow>
     list_ex (\<lambda>cb. case cb of None \<Rightarrow> False | Some b \<Rightarrow> sublist ident b) (map comment_Body comments)"
  by (induction comments) (auto simp: Contains_iff_sublist split: option.splits)

lemma aborted_not_clean: "aborted source msg evs \<Longrightarrow> \<not> clean evs"
  by (induction evs rule: rev_induct) (auto simp: aborted_def failed_with_def split: option.splits)

lemma aborted_last:
  assumes "aborted source msg evs" "ev \<in> set evs" "failure ev = Some e"
  shows "ev = last evs \<and> wrapped source ev e msg"
proof -
  from assms(1) have ne: "evs \<noteq> []" and cl: "clean (butlast evs)"
    and fw: "failed_with source msg (last evs)"
    by (auto simp: aborted_def)
  from ne have "evs = butlast evs @ [last evs]" by simp
  with assms(2) have "ev \<in> set (butlast evs) \<or> ev = last evs"
    by (metis Un_iff empty_iff insert_iff list.set(1) list.set(2) set_append)
  moreover have "ev \<notin> set (butlast evs)"
    using cl assms(3) by (auto simp: clean_def list_all_iff)
  ultimately have "ev = last evs" by simp
  with fw assms(3) show ?thesis by (simp add: failed_with_def)
qed

subsection \<open>The claims\<close>

text \<open>
  C1: for an item whose ID token is not in the synced set, once discovery has returned
  \<open>found\<close> and the open candidates \<open>upd\<close> and the duplicates are closed, \<open>Sync\<close>
  applies the first rule that matches. \<open>found\<close> says that some fetched candidate records
  the item, and \<open>upd\<close> lists the open candidates in the order they were fetched. (a) If
  \<open>found\<close>, it returns success with the token added and makes no further call. (b) Else, if
  \<open>upd\<close> is not empty, it makes exactly one further call, \<open>WriteComment\<close> on the first
  open candidate with \<open>Body(false)\<close>, and adds the token when that call succeeds. (c) Else
  it calls \<open>NewIssue\<close> with \<open>Title()\<close>, \<open>Body(true)\<close> and \<open>Labels()\<close> and, when that
  succeeds, \<open>Created\<close> with the title and the new number, and adds the token. In (b) and
  (c) the item's text contains its token, as the interface demands.
\<close>

theorem Sync_termination_rules:
  assumes "ID source \<notin> synced"
    and "findPreviousIssues (logged c) source (w, tr) = (Inr (found, upd), (w1, tr1))"
    and "closeDups (logged c) upd (w1, tr1) = (None, (w2, tr2))"
  shows "(found \<longleftrightarrow> list_ex (recording source) (drop (length tr) tr1)) \<and>
    upd = filter isOpen (fetched (drop (length tr) tr1)) \<and>
    (found \<longrightarrow>
       Sync (logged c) source (synced, (w, tr)) = (Inr (), insert (ID source) synced, (w2, tr2))) \<and>
    (\<not> found \<and> upd \<noteq> [] \<and> Contains (Body source False) (ID source) \<longrightarrow>
       Sync (logged c) source (synced, (w, tr)) =
         (case WriteComment c (hd upd) (Body source False) w2 of
            (None, w3) \<Rightarrow>
              (Inr (), insert (ID source) synced,
               (w3, tr2 @ [EvWriteComment (hd upd) (Body source False) None]))
          | (Some e, w3) \<Rightarrow>
              (Inl (Err (errUpdating (issue_Number (hd upd)) (ID source) e)), synced,
               (w3, tr2 @ [EvWriteComment (hd upd) (Body source False) (Some e)])))) \<and>
    (\<not> found \<and> upd = [] \<and> Contains (Body source True) (ID source) \<longrightarrow>
       Sync (logged c) source (synced, (w, tr)) =
         (case NewIssue c (Title source) (Body source True) (Labels source) w2 of
            (Inr obj, w3) \<Rightarrow>
              (Inr (), insert (ID source) synced,
               (Created c (Title source) (issue_Number obj) w3,
                tr2 @ [EvNewIssue (Title source) (Body source True) (Labels source) (Inr obj),
                       EvCreated (Title source) (issue_Number obj)]))
          | (Inl e, w3) \<Rightarrow>
              (Inl (Err (errMaking (ID_addr source) e)), synced,
               (w3, tr2 @ [EvNewIssue (Title source) (Body source True) (Labels source) (Inl e)]))))"
proof -
  from findPreviousIssues_trace [OF assms(2)] obtain evs where
    "tr1 = tr @ evs" "upd = filter isOpen (fetched evs)" "found \<longleftrightarrow> list_ex (recording source) evs"
    by auto
  then have discovery: "found \<longleftrightarrow> list_ex (recording source) (drop (length tr) tr1)"
    "upd = filter isOpen (fetched (drop (length tr) tr1))"
    by simp_all
  have a: "Sync (logged c) source (synced, (w, tr)) = (Inr (), insert (ID source) synced, (w2, tr2))"
    if found
    using that assms by (simp add: Sync_def)
  have b: "Sync (logged c) source (synced, (w, tr)) =
         (case WriteComment c (hd upd) (Body source False) w2 of
            (None, w3) \<Rightarrow>
              (Inr (), insert (ID source) synced,
               (w3, tr2 @ [EvWriteComment (hd upd) (Body source False) None]))
          | (Some e, w3) \<Rightarrow>
              (Inl (Err (errUpdating (issue_Number (hd upd)) (ID source) e)), synced,
               (w3, tr2 @ [EvWriteComment (hd upd) (Body source False) (Some e)])))"
    if "\<not> found \<and> upd \<noteq> [] \<and> Contains (Body source False) (ID source)"
    using that assms
    by (simp add: Sync_def updateIssue_logged split: prod.splits option.splits)
  have c: "Sync (logged c) source (synced, (w, tr)) =
         (case NewIssue c (Title source) (Body source True) (Labels source) w2 of
            (Inr obj, w3) \<Rightarrow>
              (Inr (), insert (ID source) synced,
               (Created c (Title source) (issue_Number obj) w3,
                tr2 @ [EvNewIssue (Title source) (Body source True) (Labels source) (Inr obj),
                       EvCreated (Title source) (issue_Number obj)]))
          | (Inl e, w3) \<Rightarrow>
              (Inl (Err (errMaking (ID_addr source) e)), synced,
               (w3, tr2 @ [EvNewIssue (Title source) (Body source True) (Labels source) (Inl e)])))"
    if "\<not> found \<and> upd = [] \<and> Contains (Body source True) (ID source)"
    using that assms
    by (simp add: Sync_def createIssue_logged split: prod.splits sum.splits)
  from discovery a b c show ?thesis
    by blast
qed

theorem Sync_termination_rules_witness:
  "fst (discover flake closed_recorded no_faults) = Inr (True, []) \<and>
   fst (dedup [] (discover flake closed_recorded no_faults)) = None \<and>
   run flake closed_recorded no_faults =
     (Inr (), {''id-1''}, snd (dedup [] (discover flake closed_recorded no_faults))) \<and>
   fst (discover flake three_open no_faults) = Inr (False, three_issues) \<and>
   fst (dedup three_issues (discover flake three_open no_faults)) = None \<and>
   Contains (Body flake False) (ID flake) \<and>
   fst (run flake three_open no_faults) = Inr () \<and>
   fst (snd (run flake three_open no_faults)) = {''id-1''} \<and>
   trace_of (run flake three_open no_faults) =
     snd (snd (dedup three_issues (discover flake three_open no_faults)))
       @ [EvWriteComment (issue_of 5 ''open'' ''a'') ''again id-1'' None] \<and>
   fst (discover flake [] no_faults) = Inr (False, []) \<and>
   Contains (Body flake True) (ID flake) \<and>
   fst (run flake [] no_faults) = Inr () \<and>
   fst (snd (run flake [] no_faults)) = {''id-1''} \<and>
   trace_of (run flake [] no_faults) =
     snd (snd (dedup [] (discover flake [] no_faults)))
       @ [EvNewIssue ''Flake'' ''new id-1'' [''kind/flake'']
            (Inr \<lparr>issue_Number = 100, issue_State = Some ''open'', issue_Body = Some ''new id-1''\<rparr>),
          EvCreated ''Flake'' 100]"
proof -
  have fresh: "ID flake \<notin> {}"
    by simp
  have flake: "ID flake = ''id-1''" "Title flake = ''Flake''" "Body flake False = ''again id-1''"
    "Body flake True = ''new id-1''" "Labels flake = [''kind/flake'']"
    by (simp_all add: flake_def)
  \<comment> \<open>rule (a)\<close>
  let ?Fa = "discover flake closed_recorded no_faults"
  let ?Da = "dedup [] ?Fa"
  have fa: "fst ?Fa = Inr (True, [])"
    by code_simp
  then have Fa: "?Fa = (Inr (True, []), (fst (snd ?Fa), snd (snd ?Fa)))"
    by (simp add: prod_eq_iff)
  have da: "fst ?Da = None"
    by code_simp
  then have Da: "?Da = (None, (fst (snd ?Da), snd (snd ?Da)))"
    by (simp add: prod_eq_iff)
  note Sync_termination_rules [OF fresh Fa Da, THEN conjunct2, THEN conjunct2, THEN conjunct1,
    THEN mp, OF TrueI]
  then have a: "run flake closed_recorded no_faults = (Inr (), {''id-1''}, snd ?Da)"
    by (simp add: flake)
  \<comment> \<open>rule (b)\<close>
  let ?Fb = "discover flake three_open no_faults"
  let ?Db = "dedup three_issues ?Fb"
  let ?W = "WriteComment tracker_collab (hd three_issues) (Body flake False) (fst (snd ?Db))"
  have fb: "fst ?Fb = Inr (False, three_issues)"
    by code_simp
  then have Fb: "?Fb = (Inr (False, three_issues), (fst (snd ?Fb), snd (snd ?Fb)))"
    by (simp add: prod_eq_iff)
  have db: "fst ?Db = None"
    by code_simp
  then have Db: "?Db = (None, (fst (snd ?Db), snd (snd ?Db)))"
    by (simp add: prod_eq_iff)
  have cb: "Contains (Body flake False) (ID flake)"
    by code_simp
  then have pre_b: "\<not> False \<and> three_issues \<noteq> [] \<and> Contains (Body flake False) (ID flake)"
    by simp
  have "fst ?W = None"
    by code_simp
  then obtain w3 where W: "?W = (None, w3)"
    by (cases ?W) auto
  note Sync_termination_rules [OF fresh Fb Db, THEN conjunct2, THEN conjunct2, THEN conjunct2,
    THEN conjunct1, THEN mp, OF pre_b]
  then have b: "run flake three_open no_faults =
      (Inr (), {''id-1''}, (w3,
        snd (snd ?Db) @ [EvWriteComment (issue_of 5 ''open'' ''a'') ''again id-1'' None]))"
    by (simp only: W prod.case option.case) (simp add: flake)
  \<comment> \<open>rule (c)\<close>
  let ?Fc = "discover flake [] no_faults"
  let ?Dc = "dedup [] ?Fc"
  let ?new = "\<lparr>issue_Number = 100, issue_State = Some ''open'', issue_Body = Some ''new id-1''\<rparr>"
  let ?N = "NewIssue tracker_collab (Title flake) (Body flake True) (Labels flake) (fst (snd ?Dc))"
  have fc: "fst ?Fc = Inr (False, [])"
    by code_simp
  then have Fc: "?Fc = (Inr (False, []), (fst (snd ?Fc), snd (snd ?Fc)))"
    by (simp add: prod_eq_iff)
  have "fst ?Dc = None"
    by code_simp
  then have Dc: "?Dc = (None, (fst (snd ?Dc), snd (snd ?Dc)))"
    by (simp add: prod_eq_iff)
  have cc: "Contains (Body flake True) (ID flake)"
    by code_simp
  then have pre_c: "\<not> False \<and> ([] :: MungeObject list) = [] \<and> Contains (Body flake True) (ID flake)"
    by simp
  have "fst ?N = Inr ?new"
    by code_simp
  then obtain w4 where N: "?N = (Inr ?new, w4)"
    by (cases ?N) auto
  note Sync_termination_rules [OF fresh Fc Dc, THEN conjunct2, THEN conjunct2, THEN conjunct2,
    THEN conjunct2, THEN mp, OF pre_c]
  then have c: "run flake [] no_faults =
      (Inr (), {''id-1''}, (Created tracker_collab ''Flake'' 100 w4,
        snd (snd ?Dc) @ [EvNewIssue ''Flake'' ''new id-1'' [''kind/flake''] (Inr ?new),
                         EvCreated ''Flake'' 100]))"
    by (simp only: N prod.case sum.case) (simp add: flake)
  from fa da a fb db cb b fc cc c show ?thesis
    by simp
qed


text \<open>
  C2: when the item's ID token is in the synced set, \<open>Sync\<close> returns success and leaves
  the synced set, the world and the trace of calls as they are: it makes no call. Hence
  a call that follows a successful call for the same item changes nothing and makes no
  call.
\<close>

theorem Sync_already_synced:
  "(ID source \<in> synced \<longrightarrow>
      Sync (logged c) source (synced, (w, tr)) = (Inr (), synced, (w, tr))) \<and>
   (Sync (logged c) source (synced, (w, tr)) = (Inr (), synced', (w', tr')) \<longrightarrow>
      Sync (logged c) source (synced', (w', tr')) = (Inr (), synced', (w', tr')))"
proof (intro conjI impI)
  show "Sync (logged c) source (synced, (w, tr)) = (Inr (), synced, (w, tr))" if "ID source \<in> synced"
    using that by (simp add: Sync_def)
  show "Sync (logged c) source (synced', (w', tr')) = (Inr (), synced', (w', tr'))"
    if "Sync (logged c) source (synced, (w, tr)) = (Inr (), synced', (w', tr'))"
    using Sync_success [OF that] by (simp add: Sync_def)
qed

theorem Sync_already_synced_witness:
  "ID flake \<in> {''id-1''} \<and>
   Sync (logged tracker_collab) flake ({''id-1''}, (tracker_of three_open no_faults, []))
     = (Inr (), {''id-1''}, (tracker_of three_open no_faults, [])) \<and>
   fst (run flake [] no_faults) = Inr () \<and>
   Sync (logged tracker_collab) flake (snd (run flake [] no_faults)) =
     (Inr (), snd (run flake [] no_faults))"
proof -
  let ?R = "run flake [] no_faults"
  have synced: "ID flake \<in> {''id-1''}"
    by (simp add: flake_def)
  have ok: "fst ?R = Inr ()"
    by code_simp
  then have run: "Sync (logged tracker_collab) flake ({}, (tracker_of [] no_faults, []))
      = (Inr (), fst (snd ?R), (world_of ?R, trace_of ?R))"
    by (simp add: prod_eq_iff)
  from Sync_already_synced [of flake "{''id-1''}" tracker_collab "tracker_of three_open no_faults" "[]"]
    synced
  have first: "Sync (logged tracker_collab) flake ({''id-1''}, (tracker_of three_open no_faults, []))
     = (Inr (), {''id-1''}, (tracker_of three_open no_faults, []))"
    by blast
  from Sync_already_synced [of flake "{}" tracker_collab "tracker_of [] no_faults" "[]"
      "fst (snd ?R)" "world_of ?R" "trace_of ?R"] run
  have "Sync (logged tracker_collab) flake (fst (snd ?R), (world_of ?R, trace_of ?R))
     = (Inr (), fst (snd ?R), (world_of ?R, trace_of ?R))"
    by blast
  with synced first ok show ?thesis
    by simp
qed


text \<open>
  C3: \<open>isRecorded\<close> answers "recorded" exactly when the issue's body is present and
  contains the ID token as a substring, or some listed comment has a present body that
  contains it; a comment without body is passed over and the answer is still a result, not
  an error. When the body already contains the token the answer is given without listing
  the comments.
\<close>

theorem isRecorded_classification:
  "(bodyContains obj (ID source) \<longrightarrow> isRecorded c obj source w = (Inr True, w)) \<and>
   (ListComments c obj w = (Inr comments, w') \<longrightarrow>
      fst (isRecorded c obj source w) =
        Inr (recorded_in (issue_Body obj) (map comment_Body comments) (ID source)))"
  by (auto simp: isRecorded_def recorded_in_def bodyContains_def commentsContain_iff
        Contains_iff_sublist split: option.splits)

theorem isRecorded_classification_witness:
  "bodyContains (issue_of 4 ''closed'' ''seen id-1'') (ID flake) \<and>
   isRecorded tracker_collab (issue_of 4 ''closed'' ''seen id-1'') flake (tracker_of [] no_faults)
     = (Inr True, tracker_of [] no_faults) \<and>
   fst (ListComments tracker_collab (as_issue 9 (snd commented)) (tracker_of [commented] no_faults))
     = Inr (tr_comments (snd commented)) \<and>
   fst (isRecorded tracker_collab (as_issue 9 (snd commented)) flake (tracker_of [commented] no_faults))
     = Inr True"
proof -
  let ?w = "tracker_of [commented] no_faults"
  let ?L = "ListComments tracker_collab (as_issue 9 (snd commented)) ?w"
  have body: "bodyContains (issue_of 4 ''closed'' ''seen id-1'') (ID flake)"
    by code_simp
  have fstL: "fst ?L = Inr (tr_comments (snd commented))"
    by code_simp
  then have listed: "?L = (Inr (tr_comments (snd commented)), snd ?L)"
    by (simp add: prod_eq_iff)
  have spec: "recorded_in (issue_Body (as_issue 9 (snd commented)))
      (map comment_Body (tr_comments (snd commented))) (ID flake)"
    by code_simp
  from isRecorded_classification [of "issue_of 4 ''closed'' ''seen id-1''" flake tracker_collab
      "tracker_of [] no_faults"] body
  have first: "isRecorded tracker_collab (issue_of 4 ''closed'' ''seen id-1'') flake
      (tracker_of [] no_faults) = (Inr True, tracker_of [] no_faults)"
    by blast
  from isRecorded_classification [of "as_issue 9 (snd commented)" flake tracker_collab ?w
      "tr_comments (snd commented)" "snd ?L"] listed
  have "fst (isRecorded tracker_collab (as_issue 9 (snd commented)) flake ?w) =
      Inr (recorded_in (issue_Body (as_issue 9 (snd commented)))
        (map comment_Body (tr_comments (snd commented))) (ID flake))"
    by blast
  with spec have second: "fst (isRecorded tracker_collab (as_issue 9 (snd commented)) flake ?w) = Inr True"
    by simp
  from body first fstL second show ?thesis
    by blast
qed


text \<open>
  C4: when discovery yields more than one open candidate, \<open>Sync\<close> keeps the first one
  (\<open>hd upd\<close>, the first open issue fetched) and, right after discovery, calls
  \<open>CloseIssuef\<close> on the others in order, each with the message that names the number of
  the kept issue. Either all of them are closed and no later call of \<open>Sync\<close> closes
  anything, or the \<open>n\<close>-th close fails: then the failed call is the last call \<open>Sync\<close>
  makes, so no call reaches the duplicates after it, and \<open>Sync\<close> returns that error with
  the synced set unchanged.
\<close>

theorem Sync_closes_duplicates:
  assumes "ID source \<notin> synced"
    and "findPreviousIssues (logged c) source (w, tr) = (Inr (found, upd), (w1, tr1))"
    and "1 < length upd"
    and "Sync (logged c) source (synced, (w, tr)) = (r, synced', (w', tr'))"
  shows "upd = filter isOpen (fetched (drop (length tr) tr1)) \<and>
     (\<exists>n rest. n \<le> length (tl upd) \<and>
        tr' = tr1 @ map (\<lambda>d. EvCloseIssuef d (dupMessage (issue_Number (hd upd))) None) (take n (tl upd))
                  @ rest \<and>
        (if n = length (tl upd) then list_all (\<lambda>ev. \<not> closing ev) rest
         else \<exists>e. rest = [EvCloseIssuef (tl upd ! n) (dupMessage (issue_Number (hd upd))) (Some e)] \<and>
                  r = Inl (Err (errClosing (issue_Number (tl upd ! n)) (issue_Number (hd upd)) e)) \<and>
                  synced' = synced))"
proof -
  let ?k = "issue_Number (hd upd)"
  let ?ok = "\<lambda>d. EvCloseIssuef d (dupMessage ?k) None"
  from findPreviousIssues_trace [OF assms(2)] obtain evs where
    "tr1 = tr @ evs" "upd = filter isOpen (fetched evs)"
    by auto
  then have discovery: "upd = filter isOpen (fetched (drop (length tr) tr1))"
    by simp
  obtain res w2 tr2 where cd: "closeDups (logged c) upd (w1, tr1) = (res, (w2, tr2))"
    by (metis surj_pair)
  with assms(3) have md: "markAsDups (logged c) (tl upd) ?k (w1, tr1) = (res, (w2, tr2))"
    by (simp add: closeDups_def)
  from markAsDups_trace [OF md] obtain n where n: "n \<le> length (tl upd)"
    "case res of
          None \<Rightarrow> n = length (tl upd) \<and> tr2 = tr1 @ map ?ok (tl upd)
        | Some msg \<Rightarrow> n < length (tl upd) \<and>
            (\<exists>e. tr2 = tr1 @ map ?ok (take n (tl upd))
                      @ [EvCloseIssuef (tl upd ! n) (dupMessage ?k) (Some e)] \<and>
                 msg = errClosing (issue_Number (tl upd ! n)) ?k e)"
    by blast
  show ?thesis
  proof (cases res)
    case (Some msg)
    with assms(1,2,4) cd have "r = Inl (Err msg)" "synced' = synced" "tr' = tr2"
      by (simp_all add: Sync_def)
    with n Some discovery show ?thesis
      by (intro conjI exI [of _ n]) auto
  next
    case None
    with n have tr2: "tr2 = tr1 @ map ?ok (take (length (tl upd)) (tl upd))" and nl: "n = length (tl upd)"
      by simp_all
    from assms(3) have ne: "upd \<noteq> []" by auto
    have "\<exists>rest. tr' = tr2 @ rest \<and> list_all (\<lambda>ev. \<not> closing ev) rest"
    proof (cases found)
      case True
      with assms(1,2,4) cd None have "tr' = tr2"
        by (simp add: Sync_def)
      then show ?thesis by simp
    next
      case False
      with assms(1,2,4) cd None ne show ?thesis
        by (auto simp: Sync_def updateIssue_logged split: prod.splits option.splits if_splits)
    qed
    then obtain rest where "tr' = tr2 @ rest" "list_all (\<lambda>ev. \<not> closing ev) rest"
      by blast
    with tr2 discovery show ?thesis
      by (intro conjI exI [of _ "length (tl upd)"] exI [of _ rest]) simp_all
  qed
qed

theorem Sync_closes_duplicates_witness:
  "fst (discover flake three_open (fault_at 7)) = Inr (False, three_issues) \<and>
   1 < length three_issues \<and>
   three_issues = filter isOpen (fetched (snd (snd (discover flake three_open (fault_at 7))))) \<and>
   trace_of (run flake three_open (fault_at 7)) =
     snd (snd (discover flake three_open (fault_at 7)))
       @ [EvCloseIssuef (issue_of 7 ''open'' ''b'') ''This is a duplicate of #5; closing'' None,
          EvCloseIssuef (issue_of 3 ''open'' ''c'') ''This is a duplicate of #5; closing''
            (Some ''timeout'')] \<and>
   fst (run flake three_open (fault_at 7)) = Inl (Err ''failed to close 3 as a dup of 5: timeout'') \<and>
   open_issues (tracker_of three_open (fault_at 7)) ''Flake'' = [5, 7, 3] \<and>
   open_issues (world_of (run flake three_open (fault_at 7))) ''Flake'' = [5, 3]"
proof -
  let ?F = "discover flake three_open (fault_at 7)"
  let ?R = "run flake three_open (fault_at 7)"
  have fresh: "ID flake \<notin> {}"
    by simp
  have f: "fst ?F = Inr (False, three_issues)"
    by code_simp
  then have F: "?F = (Inr (False, three_issues), (fst (snd ?F), snd (snd ?F)))"
    by (simp add: prod_eq_iff)
  have many: "1 < length three_issues"
    by simp
  have R: "Sync (logged tracker_collab) flake ({}, (tracker_of three_open (fault_at 7), []))
      = (fst ?R, fst (snd ?R), (world_of ?R, trace_of ?R))"
    by simp
  have tr: "trace_of ?R = snd (snd ?F)
       @ [EvCloseIssuef (issue_of 7 ''open'' ''b'') ''This is a duplicate of #5; closing'' None,
          EvCloseIssuef (issue_of 3 ''open'' ''c'') ''This is a duplicate of #5; closing''
            (Some ''timeout'')]"
    by code_simp
  have r: "fst ?R = Inl (Err ''failed to close 3 as a dup of 5: timeout'')"
    by code_simp
  have before: "open_issues (tracker_of three_open (fault_at 7)) ''Flake'' = [5, 7, 3]"
    by code_simp
  have after: "open_issues (world_of ?R) ''Flake'' = [5, 3]"
    by code_simp
  from Sync_closes_duplicates [OF fresh F many R]
  have "three_issues = filter isOpen (fetched (drop (length ([] :: event list)) (snd (snd ?F))))"
    by (rule conjunct1)
  then have "three_issues = filter isOpen (fetched (snd (snd ?F)))"
    by simp
  with f many tr r before after show ?thesis
    by blast
qed


text \<open>
  C6: \<open>updateIssue\<close> and \<open>createIssue\<close> check the text returned by \<open>Body\<close> for the
  item's ID token before the call that posts it. When the token is missing they panic and
  make no call; the panic passes through \<open>Sync\<close> as a panic, not as a returned error,
  and leaves the synced set as it was. In every run of \<open>Sync\<close>, each text posted by
  \<open>WriteComment\<close> or \<open>NewIssue\<close> contains the token.
\<close>

theorem token_guard:
  "(\<not> Contains (Body source False) (ID source) \<longrightarrow>
      updateIssue (logged c) obj source (w, tr) =
        (Some (Panic (programmerError (Body source False) (ID source))), (w, tr))) \<and>
   (\<not> Contains (Body source True) (ID source) \<longrightarrow>
      createIssue (logged c) source (w, tr) =
        (Inl (Panic (programmerError (Body source True) (ID source))), (w, tr))) \<and>
   (ID source \<notin> synced \<and>
    findPreviousIssues (logged c) source (w, tr) = (Inr (False, upd), W1) \<and>
    closeDups (logged c) upd W1 = (None, W2) \<and>
    \<not> Contains (Body source (upd = [])) (ID source) \<longrightarrow>
      Sync (logged c) source (synced, (w, tr)) =
        (Inl (Panic (programmerError (Body source (upd = [])) (ID source))), synced, W2)) \<and>
   (Sync (logged c) source (synced, (w, tr)) = (r, synced', (w', tr')) \<longrightarrow>
      (\<forall>ev \<in> set (drop (length tr) tr').
         case posted ev of None \<Rightarrow> True | Some body \<Rightarrow> Contains body (ID source)))"
proof (intro conjI impI)
  assume "\<not> Contains (Body source False) (ID source)"
  then show "updateIssue (logged c) obj source (w, tr) =
        (Some (Panic (programmerError (Body source False) (ID source))), (w, tr))"
    by (simp add: updateIssue_logged)
next
  assume "\<not> Contains (Body source True) (ID source)"
  then show "createIssue (logged c) source (w, tr) =
        (Inl (Panic (programmerError (Body source True) (ID source))), (w, tr))"
    by (simp add: createIssue_logged)
next
  assume a: "ID source \<notin> synced \<and>
    findPreviousIssues (logged c) source (w, tr) = (Inr (False, upd), W1) \<and>
    closeDups (logged c) upd W1 = (None, W2) \<and>
    \<not> Contains (Body source (upd = [])) (ID source)"
  obtain w2 tr2 where W2: "W2 = (w2, tr2)" by (cases W2)
  show "Sync (logged c) source (synced, (w, tr)) =
        (Inl (Panic (programmerError (Body source (upd = [])) (ID source))), synced, W2)"
  proof (cases "upd = []")
    case True
    with a W2 show ?thesis
      by (simp add: Sync_def createIssue_logged)
  next
    case False
    with a W2 show ?thesis
      by (simp add: Sync_def updateIssue_logged)
  qed
next
  assume "Sync (logged c) source (synced, (w, tr)) = (r, synced', (w', tr'))"
  from Sync_run [OF this] obtain evs1 evs2 evs3 where
    tr': "tr' = tr @ evs1 @ evs2 @ evs3" and r: "list_all reading evs1" and
    c: "list_all closing evs2" and f: "finishing source (filter isOpen (fetched evs1)) evs3"
    by blast
  have "posted ev = None" if "ev \<in> set evs1" for ev
    using r that by (cases ev) (auto simp: list_all_iff)
  moreover have "posted ev = None" if "ev \<in> set evs2" for ev
    using c that by (cases ev) (auto simp: list_all_iff)
  moreover have "case posted ev of None \<Rightarrow> True | Some body \<Rightarrow> Contains body (ID source)"
    if "ev \<in> set evs3" for ev
    using f that
    by (induction source "filter isOpen (fetched evs1)" evs3 rule: finishing.induct) auto
  ultimately show "\<forall>ev \<in> set (drop (length tr) tr').
         case posted ev of None \<Rightarrow> True | Some body \<Rightarrow> Contains body (ID source)"
    using tr' by auto
qed

theorem token_guard_witness:
  "\<not> Contains (Body tokenless False) (ID tokenless) \<and>
   updateIssue (logged tracker_collab) (issue_of 5 ''open'' ''a'') tokenless
       (tracker_of three_open no_faults, [])
     = (Some (Panic ''Programmer error: flaky does not contain id-2!''),
        (tracker_of three_open no_faults, [])) \<and>
   \<not> Contains (Body tokenless True) (ID tokenless) \<and>
   createIssue (logged tracker_collab) tokenless (tracker_of [] no_faults, [])
     = (Inl (Panic ''Programmer error: flaky does not contain id-2!''),
        (tracker_of [] no_faults, [])) \<and>
   fst (discover tokenless three_open no_faults) = Inr (False, three_issues) \<and>
   fst (dedup three_issues (discover tokenless three_open no_faults)) = None \<and>
   run tokenless three_open no_faults
     = (Inl (Panic ''Programmer error: flaky does not contain id-2!''), {},
        snd (dedup three_issues (discover tokenless three_open no_faults))) \<and>
   list_all (\<lambda>ev. case posted ev of None \<Rightarrow> True | Some body \<Rightarrow> Contains body (ID flake))
     (trace_of (run flake three_open no_faults)) \<and>
   list_ex (\<lambda>ev. posted ev = Some ''again id-1'') (trace_of (run flake three_open no_faults))"
proof -
  have msg: "programmerError ''flaky'' ''id-2'' = ''Programmer error: flaky does not contain id-2!''"
    by (simp add: programmerError_def)
  have tokenless: "ID tokenless = ''id-2''" "Body tokenless b = ''flaky''" for b
    by (simp_all add: tokenless_def)
  have nf: "\<not> Contains (Body tokenless False) (ID tokenless)"
    by code_simp
  have nt: "\<not> Contains (Body tokenless True) (ID tokenless)"
    by code_simp
  note g = token_guard [of tokenless tracker_collab _ _ "[]" "{}"]
  from g [of "issue_of 5 ''open'' ''a''" "tracker_of three_open no_faults"] nf
  have u: "updateIssue (logged tracker_collab) (issue_of 5 ''open'' ''a'') tokenless
       (tracker_of three_open no_faults, [])
     = (Some (Panic ''Programmer error: flaky does not contain id-2!''),
        (tracker_of three_open no_faults, []))"
    by (simp add: msg tokenless)
  from g [of _ "tracker_of [] no_faults"] nt
  have c: "createIssue (logged tracker_collab) tokenless (tracker_of [] no_faults, [])
     = (Inl (Panic ''Programmer error: flaky does not contain id-2!''),
        (tracker_of [] no_faults, []))"
    by (simp add: msg tokenless)
  let ?F = "discover tokenless three_open no_faults"
  let ?D = "dedup three_issues ?F"
  have f: "fst ?F = Inr (False, three_issues)"
    by code_simp
  then have F: "?F = (Inr (False, three_issues), snd ?F)"
    by (simp add: prod_eq_iff)
  have d: "fst ?D = None"
    by code_simp
  then have D: "closeDups (logged tracker_collab) three_issues (snd ?F) = (None, snd ?D)"
    by (simp add: prod_eq_iff)
  have pre: "ID tokenless \<notin> {} \<and>
    findPreviousIssues (logged tracker_collab) tokenless (tracker_of three_open no_faults, [])
      = (Inr (False, three_issues), snd ?F) \<and>
    closeDups (logged tracker_collab) three_issues (snd ?F) = (None, snd ?D) \<and>
    \<not> Contains (Body tokenless (three_issues = [])) (ID tokenless)"
    using F D nf by simp
  note token_guard [of tokenless tracker_collab _ "tracker_of three_open no_faults" "[]" "{}"
      three_issues "snd ?F" "snd ?D", THEN conjunct2, THEN conjunct2, THEN conjunct1, THEN mp, OF pre]
  then have s: "run tokenless three_open no_faults
     = (Inl (Panic ''Programmer error: flaky does not contain id-2!''), {}, snd ?D)"
    by (simp add: msg tokenless)
  let ?R = "run flake three_open no_faults"
  have R: "Sync (logged tracker_collab) flake ({}, (tracker_of three_open no_faults, []))
      = (fst ?R, fst (snd ?R), (world_of ?R, trace_of ?R))"
    by simp
  note token_guard [of flake tracker_collab _ "tracker_of three_open no_faults" "[]" "{}"
      _ _ _ "fst ?R" "fst (snd ?R)" "world_of ?R" "trace_of ?R",
      THEN conjunct2, THEN conjunct2, THEN conjunct2, THEN mp, OF R]
  then have p: "list_all (\<lambda>ev. case posted ev of None \<Rightarrow> True | Some body \<Rightarrow> Contains body (ID flake))
      (trace_of ?R)"
    by (simp add: list_all_iff)
  have q: "list_ex (\<lambda>ev. posted ev = Some ''again id-1'') (trace_of ?R)"
    by code_simp
  from nf u nt c f d s p q show ?thesis
    by blast
qed


text \<open>
  C7: if a comment listing fails during a run of \<open>Sync\<close>, then \<open>Sync\<close> returns an error.
  The failed listing is the last call of the run, the synced set is unchanged, and the
  error text carries the item's ID token and ends with the error of the listing.
\<close>

theorem comment_listing_failure_aborts:
  assumes "Sync (logged c) source (synced, (w, tr)) = (r, synced', (w', tr'))"
    and "EvListComments obj (Inl e) \<in> set (drop (length tr) tr')"
  shows "\<exists>msg. r = Inl (Err msg) \<and> synced' = synced \<and>
           last tr' = EvListComments obj (Inl e) \<and>
           wrapped source (EvListComments obj (Inl e)) e msg"
proof -
  from Sync_run [OF assms(1)] obtain evs where
    tr': "tr' = tr @ evs" and out: "outcome source r evs"
    by (metis append.assoc)
  from tr' assms(2) have mem: "EvListComments obj (Inl e) \<in> set evs"
    by simp
  moreover have fl: "failure (EvListComments obj (Inl e)) = Some e"
    by simp
  ultimately have "\<not> clean evs"
    unfolding clean_def list_all_iff by (metis option.distinct(1))
  with out obtain msg where r: "r = Inl (Err msg)" and ab: "aborted source msg evs"
    by (auto simp: outcome_def split: sum.splits error.splits)
  from aborted_last [OF ab mem fl] have "EvListComments obj (Inl e) = last evs"
    and "wrapped source (EvListComments obj (Inl e)) e msg"
    by blast+
  moreover from mem tr' have "last tr' = last evs"
    by (cases evs) auto
  moreover from assms(1) r have "synced' = synced"
    by (simp add: Sync_failure)
  ultimately show ?thesis using r by (simp del: wrapped.simps)
qed

theorem comment_listing_failure_aborts_witness:
  "EvListComments (issue_of 5 ''open'' ''a'') (Inl ''timeout'')
     \<in> set (trace_of (run flake three_open (fault_at 1))) \<and>
   (\<exists>msg. fst (run flake three_open (fault_at 1)) = Inl (Err msg) \<and>
      fst (snd (run flake three_open (fault_at 1))) = {} \<and>
      last (trace_of (run flake three_open (fault_at 1)))
        = EvListComments (issue_of 5 ''open'' ''a'') (Inl ''timeout'') \<and>
      wrapped flake (EvListComments (issue_of 5 ''open'' ''a'') (Inl ''timeout'')) ''timeout'' msg)"
proof -
  let ?R = "run flake three_open (fault_at 1)"
  have run: "Sync (logged tracker_collab) flake ({}, (tracker_of three_open (fault_at 1), []))
      = (fst ?R, fst (snd ?R), (world_of ?R, trace_of ?R))"
    by simp
  have mem: "EvListComments (issue_of 5 ''open'' ''a'') (Inl ''timeout'')
      \<in> set (drop (length ([] :: event list)) (trace_of ?R))"
    by code_simp
  from comment_listing_failure_aborts [OF run mem] mem show ?thesis
    by simp
qed


text \<open>
  C9, amended: every failed collaborator call is propagated at once. \<open>Sync\<close> returns an
  error exactly when a call failed; the failed call is then the last call of the run and
  the only failed one; the error text starts with the words for the failed operation and
  ends with the error of the call. For a failed comment listing or comment the text names
  the item's ID token; for a failed fetch or close it names the issue numbers instead. For
  a failed creation it starts with \<open>error making issue for\<close> and ends with the error.
\<close>

theorem failures_propagate:
  "Sync (logged c) source (synced, (w, tr)) = (r, synced', (w', tr')) \<Longrightarrow>
     outcome source r (drop (length tr) tr')"
proof -
  assume "Sync (logged c) source (synced, (w, tr)) = (r, synced', (w', tr'))"
  from Sync_run [OF this] obtain evs where "tr' = tr @ evs" "outcome source r evs"
    by (metis append.assoc)
  then show ?thesis by simp
qed

theorem failures_propagate_witness:
  "outcome flake (fst (run flake three_open (fault_at 7))) (trace_of (run flake three_open (fault_at 7))) \<and>
   fst (run flake three_open (fault_at 7)) = Inl (Err ''failed to close 3 as a dup of 5: timeout'')"
proof -
  let ?R = "run flake three_open (fault_at 7)"
  have run: "Sync (logged tracker_collab) flake ({}, (tracker_of three_open (fault_at 7), []))
      = (fst ?R, fst (snd ?R), (world_of ?R, trace_of ?R))"
    by simp
  have "fst ?R = Inl (Err ''failed to close 3 as a dup of 5: timeout'')"
    by code_simp
  with failures_propagate [OF run] show ?thesis
    by simp
qed


text \<open>
  C10: the recorded check does not look at the state of an issue. If, in a run of \<open>Sync\<close>
  without a failed call, some fetched issue shows the token in its body or comments,
  whatever its state and so also when it is closed, then \<open>Sync\<close> returns success, adds
  the token to the synced set, and posts no comment and creates no issue.
\<close>

theorem recorded_whatever_state:
  assumes "ID source \<notin> synced"
    and "Sync (logged c) source (synced, (w, tr)) = (r, synced', (w', tr'))"
    and "ev \<in> set (drop (length tr) tr')" and "recording source ev"
    and "clean (drop (length tr) tr')"
  shows "r = Inr () \<and> synced' = insert (ID source) synced \<and>
         (\<forall>ev' \<in> set (drop (length tr) tr'). posted ev' = None)"
proof -
  from Sync_run [OF assms(2)] obtain evs1 evs2 evs3 where
    tr': "tr' = tr @ evs1 @ evs2 @ evs3" and rd: "list_all reading evs1" and
    cl: "list_all closing evs2" and f: "finishing source (filter isOpen (fetched evs1)) evs3" and
    out: "outcome source r (evs1 @ evs2 @ evs3)" and
    rec: "list_ex (recording source) evs1 \<longrightarrow> evs3 = [] \<and> (\<forall>p. r \<noteq> Inl (Panic p))"
    by blast
  have "\<not> recording source ev'" if "ev' \<in> set evs2" for ev'
    using cl that by (cases ev') (auto simp: list_all_iff)
  moreover have "\<not> recording source ev'" if "ev' \<in> set evs3" for ev'
    using f that
    by (induction source "filter isOpen (fetched evs1)" evs3 rule: finishing.induct) auto
  ultimately have "ev \<in> set evs1"
    using assms(3,4) tr' by auto
  with assms(4) have "list_ex (recording source) evs1"
    by (auto simp: list_ex_iff)
  with rec have evs3: "evs3 = []" and np: "\<forall>p. r \<noteq> Inl (Panic p)"
    by simp_all
  from assms(5) tr' have "clean (evs1 @ evs2 @ evs3)"
    by simp
  with out have "\<forall>msg. r \<noteq> Inl (Err msg)"
    using aborted_not_clean by (fastforce simp: outcome_def)
  with np have r: "r = Inr ()"
    by (cases r) (auto intro: error.exhaust)
  have "posted ev' = None" if "ev' \<in> set evs1" for ev'
    using rd that by (cases ev') (auto simp: list_all_iff)
  moreover have "posted ev' = None" if "ev' \<in> set evs2" for ev'
    using cl that by (cases ev') (auto simp: list_all_iff)
  ultimately have "\<forall>ev' \<in> set (drop (length tr) tr'). posted ev' = None"
    using tr' evs3 by auto
  with r assms(2) show ?thesis
    by (simp add: Sync_success)
qed

theorem recorded_whatever_state_witness:
  "\<not> isOpen (issue_of 4 ''closed'' ''seen id-1'') \<and>
   EvGetObject 4 (Inr (issue_of 4 ''closed'' ''seen id-1''))
     \<in> set (trace_of (run flake closed_recorded no_faults)) \<and>
   recording flake (EvGetObject 4 (Inr (issue_of 4 ''closed'' ''seen id-1''))) \<and>
   clean (trace_of (run flake closed_recorded no_faults)) \<and>
   fst (run flake closed_recorded no_faults) = Inr () \<and>
   fst (snd (run flake closed_recorded no_faults)) = {''id-1''} \<and>
   list_all (\<lambda>ev. posted ev = None) (trace_of (run flake closed_recorded no_faults)) \<and>
   open_issues (world_of (run flake closed_recorded no_faults)) ''Flake'' = []"
proof -
  let ?R = "run flake closed_recorded no_faults"
  let ?ev = "EvGetObject 4 (Inr (issue_of 4 ''closed'' ''seen id-1''))"
  have run: "Sync (logged tracker_collab) flake ({}, (tracker_of closed_recorded no_faults, []))
      = (fst ?R, fst (snd ?R), (world_of ?R, trace_of ?R))"
    by simp
  have fresh: "ID flake \<notin> {}"
    by simp
  have mem: "?ev \<in> set (drop (length ([] :: event list)) (trace_of ?R))"
    by code_simp
  have rec: "recording flake ?ev"
    by code_simp
  have cl: "clean (drop (length ([] :: event list)) (trace_of ?R))"
    by code_simp
  have closed: "\<not> isOpen (issue_of 4 ''closed'' ''seen id-1'')"
    by code_simp
  have none: "open_issues (world_of ?R) ''Flake'' = []"
    by code_simp
  from recorded_whatever_state [OF fresh run mem rec cl] mem rec cl closed none show ?thesis
    by (simp add: flake_def list_all_iff)
qed


text \<open>
  C8: whenever \<open>Sync\<close> returns an error (a wrapped collaborator error or a panic), the
  synced set is the one it was called with; when it returns success, the synced set is the
  old one with the item's ID token added. This holds for every behaviour of the
  collaborators.
\<close>

theorem Sync_synced_set:
  "Sync c source (synced, w) = (r, synced', w') \<Longrightarrow>
     (case r of Inl e \<Rightarrow> synced' = synced | Inr u \<Rightarrow> synced' = insert (ID source) synced)"
  by (auto simp: Sync_def split: if_splits prod.splits sum.splits option.splits error.splits)

theorem Sync_synced_set_witness:
  "\<exists>e w'. Sync tracker_collab flake ({''id-0''}, tracker_of three_open (fault_at 0))
            = (Inl e, {''id-0''}, w')"
proof -
  let ?R = "Sync tracker_collab flake ({''id-0''}, tracker_of three_open (fault_at 0))"
  have run: "?R = (fst ?R, fst (snd ?R), snd (snd ?R))"
    by simp
  have "fst ?R = Inl (Err ''error getting object for 5: timeout'')"
    by code_simp
  with Sync_synced_set [OF run] have "fst (snd ?R) = {''id-0''}"
    by simp
  with run \<open>fst ?R = Inl (Err ''error getting object for 5: timeout'')\<close> show ?thesis
    by metis
qed

end
